theory Spec2Isabelle
  imports Main "HOL-Library.Word"
begin

section \<open>Old access key reminder and cleanup: the data model\<close>

text \<open>
  The program is one Go file: a scheduled handler that lists the IAM users, reads the
  \<open>email\<close> tag of each, lists the access keys of the users that have one, classifies
  every key by its age, mails a warning for every old key and deletes keys behind an
  environment flag.

  Modelling decisions.
  \<^item> \<open>time.Time\<close> is a library type; an instant is an integer count of nanoseconds. The
    reading of \<open>time.Now()\<close> is one value for a whole invocation (\<open>Now\<close> of the
    environment).
  \<^item> \<open>time.Duration\<close> is \<open>int64\<close> nanoseconds and Go's \<open>int\<close> is 64 bits wide on
    the platforms the handler runs on; both are \<open>64 word\<close>, read by \<open>sint\<close>, so the
    multiplication of the source wraps as it does in Go.
  \<^item> A pointer field of an SDK structure is an \<open>option\<close>; dereferencing \<open>None\<close> is
    the run-time panic of Go, the outcome \<open>Panic\<close>.
  \<^item> A Go result pair \<open>(value, err)\<close> is a pair whose second component is an
    \<open>error option\<close> (\<open>None\<close> for \<open>nil\<close>); a nil slice is the empty list.
  \<^item> The identity service is a snapshot: the answer to a listing request depends on the
    request only. The two calls with an effect, sending a mail and deleting a key, are
    recorded in order in a list of events, together with the lines printed.
  \<^item> A pagination loop runs until a page without marker arrives, so it may run forever:
    such a function returns an \<open>option\<close>, with \<open>None\<close> for a run that never returns.
\<close>

type_synonym Time = int
type_synonym Duration = "64 word"
type_synonym go_int = "64 word"

definition Hour :: Duration where
  "Hour = 3600000000000"

definition Time_Add :: "Time \<Rightarrow> Duration \<Rightarrow> Time" where
  "Time_Add t d = t + sint d"

definition Time_Before :: "Time \<Rightarrow> Time \<Rightarrow> bool" where
  "Time_Before t u = (t < u)"

datatype error = Error string

fun Error_msg :: "error \<Rightarrow> string" where
  "Error_msg (Error m) = m"

text \<open>\<open>fmt.Errorf(prefix + "%w", err)\<close>: the message of the wrapped error after the prefix.\<close>

definition Errorf :: "string \<Rightarrow> error \<Rightarrow> error" where
  "Errorf prefix err = Error (prefix @ Error_msg err)"

datatype 'a outcome = Panic | Ret 'a

record User =
  UserName :: "string option"

record Tag =
  Key :: "string option"
  Value :: "string option"

record AccessKeyMetadata =
  AccessKeyId :: "string option"
  CreateDate :: "Time option"

record defaultedUser =
  du_UserName :: string
  Email :: string
  du_Key :: AccessKeyMetadata
  OlderThan :: string

record ListUsersOutput =
  Users :: "User list"
  users_Marker :: "string option"

record ListUserTagsOutput =
  Tags :: "Tag list"
  tags_Marker :: "string option"

record ListAccessKeysOutput =
  Keys :: "AccessKeyMetadata list"
  keys_Marker :: "string option"

record SendEmailInput =
  ToAddresses :: "string list"
  BodyText :: string
  Subject :: string
  Source :: string

record DeleteAccessKeyInput =
  del_AccessKeyId :: string
  del_UserName :: string

datatype event =
    Println string
  | SendEmailCall SendEmailInput
  | DeleteAccessKeyCall DeleteAccessKeyInput

text \<open>
  What the handler reads from outside: the result of loading the configuration, the two
  environment variables, the clock, and the answers of the two service clients. A listing
  takes the user name of the request (absent for \<open>ListUsers\<close>) and the marker. The answer
  of \<open>DeleteAccessKey\<close> is kept as the text that printing it gives.
\<close>

record Env =
  LoadDefaultConfig :: "error option"
  EMAIL_FROM_ADDRESS :: string
  DRY_RUN :: string
  Now :: Time
  ListUsers :: "string option \<Rightarrow> error + ListUsersOutput"
  ListUserTags :: "string option \<Rightarrow> string option \<Rightarrow> error + ListUserTagsOutput"
  ListAccessKeys :: "string option \<Rightarrow> string option \<Rightarrow> error + ListAccessKeysOutput"
  DeleteAccessKey :: "DeleteAccessKeyInput \<Rightarrow> error + string"
  SendEmail :: "SendEmailInput \<Rightarrow> error option"

section \<open>Formatting\<close>

definition digit_char :: "nat \<Rightarrow> char" where
  "digit_char n = ''0123456789'' ! n"

fun digits10 :: "nat \<Rightarrow> string" where
  "digits10 n =
     (if n < 10 then [digit_char n] else digits10 (n div 10) @ [digit_char (n mod 10)])"

declare digits10.simps [simp del]

text \<open>The decimal text of an integer, and \<open>fmt.Sprintf("%d", n)\<close> for an \<open>int\<close>.\<close>

definition decimal :: "int \<Rightarrow> string" where
  "decimal i = (if i < 0 then CHR ''-'' # digits10 (nat (- i)) else digits10 (nat i))"

definition Sprintf_d :: "go_int \<Rightarrow> string" where
  "Sprintf_d n = decimal (sint n)"

section \<open>The functions of the program\<close>

subsection \<open>listAllUsers\<close>

text \<open>
  The \<open>for\<close> loop of \<open>listAllUsers\<close>: the marker of the request and the users collected so
  far are the loop state.
\<close>

partial_function (option) listAllUsers_loop ::
  "Env \<Rightarrow> string option \<Rightarrow> User list \<Rightarrow> (User list \<times> error option) option" where
  "listAllUsers_loop env marker users =
     (case ListUsers env marker of
        Inl err \<Rightarrow> Some ([], Some (Errorf ''error listing users: '' err))
      | Inr result \<Rightarrow>
          (case users_Marker result of
             None \<Rightarrow> Some (users @ Users result, None)
           | Some m \<Rightarrow> listAllUsers_loop env (Some m) (users @ Users result)))"

definition listAllUsers :: "Env \<Rightarrow> (User list \<times> error option) option" where
  "listAllUsers env = listAllUsers_loop env None []"

subsection \<open>getUserEmailTag\<close>

text \<open>
  The inner loop over the tags of one page: \<open>Ret (Some v)\<close> is the \<open>return\<close> inside the
  loop, \<open>Ret None\<close> is falling out of it.
\<close>

fun getUserEmailTag_tags :: "Tag list \<Rightarrow> string option outcome" where
  "getUserEmailTag_tags [] = Ret None"
| "getUserEmailTag_tags (tag # tags) =
     (case Key tag of
        None \<Rightarrow> Panic
      | Some k \<Rightarrow>
          if k = ''email'' then (case Value tag of None \<Rightarrow> Panic | Some v \<Rightarrow> Ret (Some v))
          else getUserEmailTag_tags tags)"

partial_function (option) getUserEmailTag_loop ::
  "Env \<Rightarrow> string option \<Rightarrow> string option \<Rightarrow> (string \<times> error option) outcome option" where
  "getUserEmailTag_loop env name marker =
     (case ListUserTags env name marker of
        Inl err \<Rightarrow> Some (Ret ('''', Some (Errorf ''error listing tags: '' err)))
      | Inr result \<Rightarrow>
          (case getUserEmailTag_tags (Tags result) of
             Panic \<Rightarrow> Some Panic
           | Ret (Some v) \<Rightarrow> Some (Ret (v, None))
           | Ret None \<Rightarrow>
               (case tags_Marker result of
                  None \<Rightarrow> Some (Ret ('''', None))
                | Some m \<Rightarrow> getUserEmailTag_loop env name (Some m))))"

definition getUserEmailTag :: "Env \<Rightarrow> User \<Rightarrow> (string \<times> error option) outcome option" where
  "getUserEmailTag env user = getUserEmailTag_loop env (UserName user) None"

subsection \<open>listAllAccessKeys\<close>

partial_function (option) listAllAccessKeys_loop ::
  "Env \<Rightarrow> string option \<Rightarrow> string option \<Rightarrow> AccessKeyMetadata list \<Rightarrow>
   (AccessKeyMetadata list \<times> error option) option" where
  "listAllAccessKeys_loop env name marker keys =
     (case ListAccessKeys env name marker of
        Inl err \<Rightarrow> Some ([], Some (Errorf ''error listing access keys: '' err))
      | Inr result \<Rightarrow>
          (case keys_Marker result of
             None \<Rightarrow> Some (keys @ Keys result, None)
           | Some m \<Rightarrow> listAllAccessKeys_loop env name (Some m) (keys @ Keys result)))"

definition listAllAccessKeys ::
  "Env \<Rightarrow> User \<Rightarrow> (AccessKeyMetadata list \<times> error option) option" where
  "listAllAccessKeys env user = listAllAccessKeys_loop env (UserName user) None []"

subsection \<open>isKeyOld\<close>

text \<open>
  \<open>olderThan\<close> is the variadic parameter; \<open>now\<close> is the reading of \<open>time.Now()\<close>.
  \<open>key.CreateDate.Add\<close> dereferences the creation date in whichever condition is
  evaluated first.
\<close>

definition isKeyOld :: "Time \<Rightarrow> AccessKeyMetadata \<Rightarrow> go_int list \<Rightarrow> (bool \<times> string) outcome" where
  "isKeyOld now key olderThan =
     (case CreateDate key of
        None \<Rightarrow> Panic
      | Some created \<Rightarrow>
          if length olderThan > 0 \<and>
             Time_Before (Time_Add created ((olderThan ! 0) * 24 * Hour)) now
          then Ret (True, Sprintf_d (olderThan ! 0))
          else if Time_Before (Time_Add created (57 * 24 * Hour)) now then Ret (True, ''57'')
          else if Time_Before (Time_Add created (50 * 24 * Hour)) now then Ret (True, ''50'')
          else Ret (False, ''''))"

subsection \<open>getDefaultedUsers\<close>

text \<open>
  The loop over the keys of one user. \<open>defaultedUsers\<close> is the slice being appended to;
  the events are the lines printed by this loop.
\<close>

fun getDefaultedUsers_keys ::
  "Time \<Rightarrow> User \<Rightarrow> string \<Rightarrow> AccessKeyMetadata list \<Rightarrow> defaultedUser list \<Rightarrow>
   defaultedUser list outcome \<times> event list" where
  "getDefaultedUsers_keys now user email [] defaultedUsers = (Ret defaultedUsers, [])"
| "getDefaultedUsers_keys now user email (key # keys) defaultedUsers =
     (case isKeyOld now key [] of
        Panic \<Rightarrow> (Panic, [])
      | Ret (old, days) \<Rightarrow>
          if old then
            (case AccessKeyId key of
               None \<Rightarrow> (Panic, [])
             | Some keyId \<Rightarrow>
                 (case UserName user of
                    None \<Rightarrow> (Panic, [])
                  | Some userName \<Rightarrow>
                      (case getDefaultedUsers_keys now user email keys
                              (defaultedUsers @
                                 [\<lparr>du_UserName = userName, Email = email, du_Key = key,
                                   OlderThan = days\<rparr>]) of
                         (r, log) \<Rightarrow>
                           (r, Println (''Access key '' @ keyId @ '' for user '' @ userName @
                                        '' is older than 60 days.'') # log))))
          else getDefaultedUsers_keys now user email keys defaultedUsers)"

text \<open>The loop over the users; every \<open>return nil, err\<close> gives the empty list.\<close>

fun getDefaultedUsers_users ::
  "Env \<Rightarrow> User list \<Rightarrow> defaultedUser list \<Rightarrow>
   ((defaultedUser list \<times> error option) outcome \<times> event list) option" where
  "getDefaultedUsers_users env [] defaultedUsers = Some (Ret (defaultedUsers, None), [])"
| "getDefaultedUsers_users env (user # users) defaultedUsers =
     (case getUserEmailTag env user of
        None \<Rightarrow> None
      | Some Panic \<Rightarrow> Some (Panic, [])
      | Some (Ret (email, Some err)) \<Rightarrow> Some (Ret ([], Some err), [])
      | Some (Ret (email, None)) \<Rightarrow>
          if email = '''' then getDefaultedUsers_users env users defaultedUsers
          else
            (case listAllAccessKeys env user of
               None \<Rightarrow> None
             | Some (keys, Some err) \<Rightarrow> Some (Ret ([], Some err), [])
             | Some (keys, None) \<Rightarrow>
                 (case getDefaultedUsers_keys (Now env) user email keys defaultedUsers of
                    (Panic, log) \<Rightarrow> Some (Panic, log)
                  | (Ret defaultedUsers', log) \<Rightarrow>
                      (case getDefaultedUsers_users env users defaultedUsers' of
                         None \<Rightarrow> None
                       | Some (r, log') \<Rightarrow> Some (r, log @ log')))))"

definition getDefaultedUsers ::
  "Env \<Rightarrow> ((defaultedUser list \<times> error option) outcome \<times> event list) option" where
  "getDefaultedUsers env =
     (case listAllUsers env of
        None \<Rightarrow> None
      | Some (users, Some err) \<Rightarrow> Some (Ret ([], Some err), [])
      | Some (users, None) \<Rightarrow> getDefaultedUsers_users env users [])"

subsection \<open>sendEmail and deleteKeys\<close>

definition sendEmail :: "string \<Rightarrow> string \<Rightarrow> Env \<Rightarrow> string \<Rightarrow> error option \<times> event list" where
  "sendEmail toEmail fromEmail env days =
     (let input = \<lparr>ToAddresses = [toEmail],
                   BodyText = ''Your secret keys are older than '' @ days @
                              '' days and will be deleted.'',
                   Subject = ''Secret Key Expiration Warning'',
                   Source = fromEmail\<rparr>
      in case SendEmail env input of
           Some err \<Rightarrow>
             (Some err,
              [SendEmailCall input, Println (''Error sending email, '' @ Error_msg err)])
         | None \<Rightarrow> (None, [SendEmailCall input, Println ''Email sent successfully.'']))"

definition deleteKeys ::
  "string \<Rightarrow> string \<Rightarrow> Env \<Rightarrow> (AccessKeyMetadata list \<times> error option) \<times> event list" where
  "deleteKeys accessKeyId userName env =
     (let input = \<lparr>del_AccessKeyId = accessKeyId, del_UserName = userName\<rparr>
      in case DeleteAccessKey env input of
           Inl err \<Rightarrow>
             (([], Some err),
              [DeleteAccessKeyCall input, Println (''Error deleting access key, '' @ Error_msg err)])
         | Inr result \<Rightarrow> (([], None), [DeleteAccessKeyCall input, Println result]))"

subsection \<open>HandleLabdaEvent\<close>

text \<open>The loop of the handler over the notices.\<close>

fun HandleLabdaEvent_range :: "Env \<Rightarrow> defaultedUser list \<Rightarrow> unit outcome \<times> event list" where
  "HandleLabdaEvent_range env [] = (Ret (), [])"
| "HandleLabdaEvent_range env (user # users) =
     (case sendEmail (Email user) (EMAIL_FROM_ADDRESS env) env (OlderThan user) of
        (sent, log) \<Rightarrow>
          (case isKeyOld (Now env) (du_Key user) [100] of
             Panic \<Rightarrow> (Panic, log)
           | Ret (isOld, days) \<Rightarrow>
               (case (if isOld then
                        (if DRY_RUN env = ''--dry-run'' then
                           (case AccessKeyId (du_Key user) of
                              None \<Rightarrow> (Panic, [])
                            | Some keyId \<Rightarrow>
                                (case deleteKeys keyId (du_UserName user) env of
                                   (deleted, log1) \<Rightarrow> (Ret (), log1)))
                         else (Ret (), []))
                      else (Ret (), [])) of
                  (Panic, log1) \<Rightarrow> (Panic, log @ log1)
                | (Ret u, log1) \<Rightarrow>
                    (case HandleLabdaEvent_range env users of
                       (r, log2) \<Rightarrow> (r, log @ log1 @ log2)))))"

definition HandleLabdaEvent :: "Env \<Rightarrow> (error option outcome \<times> event list) option" where
  "HandleLabdaEvent env =
     (case LoadDefaultConfig env of
        Some err \<Rightarrow>
          Some (Ret None,
                [Println ''Couldn't load configuration. Have you set up your AWS account?'',
                 Println (Error_msg err)])
      | None \<Rightarrow>
          (case getDefaultedUsers env of
             None \<Rightarrow> None
           | Some (Panic, log) \<Rightarrow> Some (Panic, log)
           | Some (Ret (defaultedUsers, Some err), log) \<Rightarrow>
               Some (Ret None,
                     log @ [Println (''Error getting users and their keys: '' @ Error_msg err)])
           | Some (Ret (defaultedUsers, None), log) \<Rightarrow>
               (case HandleLabdaEvent_range env defaultedUsers of
                  (Panic, log') \<Rightarrow> Some (Panic, log @ log')
                | (Ret u, log') \<Rightarrow> Some (Ret None, log @ log'))))"

section \<open>Notions used to state the properties\<close>

text \<open>One day, in nanoseconds.\<close>

definition day :: int where
  "day = 86400000000000"

text \<open>
  The age classification in the words of the specification, on the age of the credential
  and the optional override, both mathematical integers.
\<close>

definition spec_classify :: "int \<Rightarrow> int option \<Rightarrow> bool \<times> string" where
  "spec_classify age override =
     (if (case override of None \<Rightarrow> False | Some d \<Rightarrow> d * day < age)
      then (True, (case override of None \<Rightarrow> [] | Some d \<Rightarrow> decimal d))
      else if 57 * day < age then (True, ''57'')
      else if 50 * day < age then (True, ''50'')
      else (False, []))"

definition override_of :: "go_int list \<Rightarrow> int option" where
  "override_of olderThan = (case olderThan of [] \<Rightarrow> None | d # rest \<Rightarrow> Some (sint d))"

text \<open>
  A listing answers with the pages \<open>ps\<close>, from the request with marker \<open>m\<close> on: every
  page but the last carries the marker of the next request, the last carries none.
\<close>

fun pages_from ::
  "(string option \<Rightarrow> error + 'p) \<Rightarrow> ('p \<Rightarrow> string option) \<Rightarrow> string option \<Rightarrow> 'p list \<Rightarrow> bool" where
  "pages_from call marker_of m [] = False"
| "pages_from call marker_of m (p # ps) =
     (call m = Inr p \<and>
      (case marker_of p of None \<Rightarrow> ps = [] | Some m' \<Rightarrow> pages_from call marker_of (Some m') ps))"

text \<open>
  A listing answers with the pages \<open>ps\<close>, each carrying a marker, and then fails with
  \<open>err\<close>.
\<close>

fun fails_after ::
  "(string option \<Rightarrow> error + 'p) \<Rightarrow> ('p \<Rightarrow> string option) \<Rightarrow> string option \<Rightarrow> 'p list \<Rightarrow>
   error \<Rightarrow> bool" where
  "fails_after call marker_of m [] err = (call m = Inl err)"
| "fails_after call marker_of m (p # ps) err =
     (call m = Inr p \<and>
      (case marker_of p of None \<Rightarrow> False | Some m' \<Rightarrow> fails_after call marker_of (Some m') ps err))"

text \<open>The calls with an effect, read off the events of a run.\<close>

fun deletions :: "event list \<Rightarrow> DeleteAccessKeyInput list" where
  "deletions [] = []"
| "deletions (DeleteAccessKeyCall input # es) = input # deletions es"
| "deletions (e # es) = deletions es"

fun notifications :: "event list \<Rightarrow> SendEmailInput list" where
  "notifications [] = []"
| "notifications (SendEmailCall input # es) = input # notifications es"
| "notifications (e # es) = notifications es"

text \<open>An access key record with the two pointer fields that the program dereferences.\<close>

definition populated_key :: "AccessKeyMetadata \<Rightarrow> bool" where
  "populated_key key = (AccessKeyId key \<noteq> None \<and> CreateDate key \<noteq> None)"

text \<open>
  Every record that a listing call can return has the pointer fields populated that the
  program dereferences: the name of a user, the key and the value of a tag, the id and the
  creation date of an access key.
\<close>

definition populated :: "Env \<Rightarrow> bool" where
  "populated env \<longleftrightarrow>
     (\<forall>m res u. ListUsers env m = Inr res \<longrightarrow> u \<in> set (Users res) \<longrightarrow> UserName u \<noteq> None) \<and>
     (\<forall>n m res t. ListUserTags env n m = Inr res \<longrightarrow> t \<in> set (Tags res) \<longrightarrow>
        Key t \<noteq> None \<and> Value t \<noteq> None) \<and>
     (\<forall>n m res k. ListAccessKeys env n m = Inr res \<longrightarrow> k \<in> set (Keys res) \<longrightarrow>
        populated_key k)"

text \<open>
  What the enumeration reads from \<open>isKeyOld\<close> for one credential: whether it is old, and
  the threshold label. The notice it builds from them, and the notices of one principal,
  in the order of its credentials.
\<close>

definition classified_old :: "Time \<Rightarrow> AccessKeyMetadata \<Rightarrow> bool" where
  "classified_old now key = (case isKeyOld now key [] of Panic \<Rightarrow> False | Ret (old, days) \<Rightarrow> old)"

definition threshold_label :: "Time \<Rightarrow> AccessKeyMetadata \<Rightarrow> string" where
  "threshold_label now key = (case isKeyOld now key [] of Panic \<Rightarrow> [] | Ret (old, days) \<Rightarrow> days)"

definition notice_for :: "User \<Rightarrow> string \<Rightarrow> Time \<Rightarrow> AccessKeyMetadata \<Rightarrow> defaultedUser" where
  "notice_for user email now key =
     \<lparr>du_UserName = (case UserName user of None \<Rightarrow> [] | Some n \<Rightarrow> n), Email = email,
      du_Key = key, OlderThan = threshold_label now key\<rparr>"

definition notices_of :: "Env \<Rightarrow> User \<Rightarrow> defaultedUser list" where
  "notices_of env user =
     (case getUserEmailTag env user of
        Some (Ret (email, None)) \<Rightarrow>
          if email = [] then []
          else (case listAllAccessKeys env user of
                  Some (keys, None) \<Rightarrow>
                    map (notice_for user email (Now env)) (filter (classified_old (Now env)) keys)
                | _ \<Rightarrow> [])
      | _ \<Rightarrow> [])"

text \<open>
  The notification of a notice, the deletion request of a notice, and the gate of the
  handler in front of the deletion.
\<close>

definition mail_for :: "Env \<Rightarrow> defaultedUser \<Rightarrow> SendEmailInput" where
  "mail_for env user =
     \<lparr>ToAddresses = [Email user],
      BodyText = ''Your secret keys are older than '' @ OlderThan user @
                 '' days and will be deleted.'',
      Subject = ''Secret Key Expiration Warning'',
      Source = EMAIL_FROM_ADDRESS env\<rparr>"

definition deletion_for :: "defaultedUser \<Rightarrow> DeleteAccessKeyInput" where
  "deletion_for user =
     \<lparr>del_AccessKeyId = (case AccessKeyId (du_Key user) of None \<Rightarrow> [] | Some keyId \<Rightarrow> keyId),
      del_UserName = du_UserName user\<rparr>"

definition deletes :: "Env \<Rightarrow> defaultedUser \<Rightarrow> bool" where
  "deletes env user =
     ((case isKeyOld (Now env) (du_Key user) [100] of Panic \<Rightarrow> False | Ret (isOld, days) \<Rightarrow> isOld) \<and>
      DRY_RUN env = ''--dry-run'')"

text \<open>
  The notices in the words of the specification, from what the service holds: the
  notification address of a principal is the value of its tag with the key \<open>email\<close>
  (empty when it has none), the age of a credential is the clock minus its creation date,
  and a principal with an address gets one notice per credential that the chain classifies
  as old without an override, carrying its name, the address, the credential and the label.
\<close>

definition email_tag :: "Tag list \<Rightarrow> string" where
  "email_tag tags =
     (case List.find (\<lambda>t. Key t = Some ''email'') tags of
        None \<Rightarrow> []
      | Some t \<Rightarrow> (case Value t of None \<Rightarrow> [] | Some v \<Rightarrow> v))"

definition age_of :: "Time \<Rightarrow> AccessKeyMetadata \<Rightarrow> int" where
  "age_of now key = (case CreateDate key of None \<Rightarrow> 0 | Some created \<Rightarrow> now - created)"

definition spec_notices ::
  "Time \<Rightarrow> User \<Rightarrow> Tag list \<Rightarrow> AccessKeyMetadata list \<Rightarrow> defaultedUser list" where
  "spec_notices now user tags keys =
     (if email_tag tags = [] then []
      else map (\<lambda>key. \<lparr>du_UserName = (case UserName user of None \<Rightarrow> [] | Some n \<Rightarrow> n),
                        Email = email_tag tags, du_Key = key,
                        OlderThan = snd (spec_classify (age_of now key) None)\<rparr>)
             (filter (\<lambda>key. fst (spec_classify (age_of now key) None)) keys))"

text \<open>
  A listing ends: from the first request on, the service answers with finitely many pages
  and then with a page without marker or with an error. All the listings of a run end: the
  listing of the principals, and the listings of the tags and of the access keys of every
  principal listed.
\<close>

definition listing_ends ::
  "(string option \<Rightarrow> error + 'p) \<Rightarrow> ('p \<Rightarrow> string option) \<Rightarrow> bool" where
  "listing_ends call marker_of \<longleftrightarrow>
     (\<exists>ps. pages_from call marker_of None ps) \<or> (\<exists>ps err. fails_after call marker_of None ps err)"

definition listings_end :: "Env \<Rightarrow> bool" where
  "listings_end env \<longleftrightarrow>
     listing_ends (ListUsers env) users_Marker \<and>
     (\<forall>ups u. pages_from (ListUsers env) users_Marker None ups \<longrightarrow>
        u \<in> set (concat (map Users ups)) \<longrightarrow>
        listing_ends (ListUserTags env (UserName u)) tags_Marker \<and>
        listing_ends (ListAccessKeys env (UserName u)) keys_Marker)"

section \<open>Concrete inputs\<close>

text \<open>
  One principal \<open>alice\<close> with the tag \<open>email = a@x.com\<close> and one access key, created
  \<open>age\<close> days before the reading of the clock; both services answer without error.
\<close>

definition alice_key :: AccessKeyMetadata where
  "alice_key = \<lparr>AccessKeyId = Some ''AKIA1'', CreateDate = Some 0\<rparr>"

definition alice_env :: "string \<Rightarrow> int \<Rightarrow> Env" where
  "alice_env flag age =
     \<lparr>LoadDefaultConfig = None, EMAIL_FROM_ADDRESS = ''ops@x.com'', DRY_RUN = flag,
      Now = age * day,
      ListUsers = (\<lambda>m. Inr \<lparr>Users = [\<lparr>UserName = Some ''alice''\<rparr>], users_Marker = None\<rparr>),
      ListUserTags = (\<lambda>n m. Inr \<lparr>Tags = [\<lparr>Key = Some ''email'', Value = Some ''a@x.com''\<rparr>],
                                 tags_Marker = None\<rparr>),
      ListAccessKeys = (\<lambda>n m. Inr \<lparr>Keys = [alice_key], keys_Marker = None\<rparr>),
      DeleteAccessKey = (\<lambda>i. Inr ''ok''),
      SendEmail = (\<lambda>i. None)\<rparr>"

definition alice_notice :: defaultedUser where
  "alice_notice =
     \<lparr>du_UserName = ''alice'', Email = ''a@x.com'', du_Key = alice_key, OlderThan = ''57''\<rparr>"

text \<open>
  Two principals delivered on two pages. \<open>bob\<close> has two pages of tags and none with the
  key \<open>email\<close> (the key \<open>Email\<close> is another key); \<open>alice\<close> has the tag. Access keys come
  on two pages: created 120, 10 and 55 days before the reading of the clock. Every
  notification fails.
\<close>

definition paged_env :: Env where
  "paged_env =
     \<lparr>LoadDefaultConfig = None, EMAIL_FROM_ADDRESS = ''ops@x.com'', DRY_RUN = '''',
      Now = 120 * day,
      ListUsers = (\<lambda>m. if m = None
                         then Inr \<lparr>Users = [\<lparr>UserName = Some ''bob''\<rparr>], users_Marker = Some ''u2''\<rparr>
                         else Inr \<lparr>Users = [\<lparr>UserName = Some ''alice''\<rparr>], users_Marker = None\<rparr>),
      ListUserTags = (\<lambda>n m.
         if n = Some ''alice''
         then Inr \<lparr>Tags = [\<lparr>Key = Some ''email'', Value = Some ''a@x.com''\<rparr>], tags_Marker = None\<rparr>
         else if m = None
         then Inr \<lparr>Tags = [\<lparr>Key = Some ''team'', Value = Some ''core''\<rparr>], tags_Marker = Some ''t2''\<rparr>
         else Inr \<lparr>Tags = [\<lparr>Key = Some ''Email'', Value = Some ''b@x.com''\<rparr>], tags_Marker = None\<rparr>),
      ListAccessKeys = (\<lambda>n m.
         if m = None
         then Inr \<lparr>Keys = [\<lparr>AccessKeyId = Some ''AKIA1'', CreateDate = Some 0\<rparr>,
                          \<lparr>AccessKeyId = Some ''AKIA2'', CreateDate = Some (110 * day)\<rparr>],
                  keys_Marker = Some ''k2''\<rparr>
         else Inr \<lparr>Keys = [\<lparr>AccessKeyId = Some ''AKIA3'', CreateDate = Some (65 * day)\<rparr>],
                  keys_Marker = None\<rparr>),
      DeleteAccessKey = (\<lambda>i. Inr ''ok''),
      SendEmail = (\<lambda>i. Some (Error ''throttled''))\<rparr>"

text \<open>
  The input \<open>alice_env\<close> with the empty flag and a key of 60 days, where one call fails:
  loading the configuration; or the second call of one of the three listings.
\<close>

definition config_failing_env :: Env where
  "config_failing_env = (alice_env [] 60)\<lparr>LoadDefaultConfig := Some (Error ''no credentials'')\<rparr>"

definition users_failing_env :: Env where
  "users_failing_env =
     (alice_env [] 60)\<lparr>ListUsers := (\<lambda>m.
        if m = None
        then Inr \<lparr>Users = [\<lparr>UserName = Some ''alice''\<rparr>], users_Marker = Some ''u2''\<rparr>
        else Inl (Error ''denied''))\<rparr>"

definition tags_failing_env :: Env where
  "tags_failing_env =
     (alice_env [] 60)\<lparr>ListUserTags := (\<lambda>n m.
        if m = None
        then Inr \<lparr>Tags = [\<lparr>Key = Some ''team'', Value = Some ''core''\<rparr>], tags_Marker = Some ''t2''\<rparr>
        else Inl (Error ''denied''))\<rparr>"

definition keys_failing_env :: Env where
  "keys_failing_env =
     (alice_env [] 60)\<lparr>ListAccessKeys := (\<lambda>n m.
        if m = None
        then Inr \<lparr>Keys = [alice_key], keys_Marker = Some ''k2''\<rparr>
        else Inl (Error ''denied''))\<rparr>"

text \<open>
  The input \<open>alice_env\<close> where the only access key has no creation date, and where the
  listing of the principals carries a marker on every page.
\<close>

definition nil_date_env :: Env where
  "nil_date_env =
     (alice_env [] 60)\<lparr>ListAccessKeys := (\<lambda>n m.
        Inr \<lparr>Keys = [\<lparr>AccessKeyId = Some ''AKIA1'', CreateDate = None\<rparr>], keys_Marker = None\<rparr>)\<rparr>"

definition endless_env :: Env where
  "endless_env =
     (alice_env [] 60)\<lparr>ListUsers := (\<lambda>m.
        Inr \<lparr>Users = [\<lparr>UserName = Some ''alice''\<rparr>], users_Marker = Some ''more''\<rparr>)\<rparr>"

section \<open>The age classification\<close>

lemma sint_days:
  assumes "- 106751 \<le> sint (d :: 64 word)" and "sint d \<le> 106751"
  shows "sint (d * 24 * Hour) = sint d * day"
proof -
  have eq: "d * 24 * Hour = d * 86400000000000"
    by (simp add: Hour_def)
  have s: "sint (86400000000000 :: 64 word) = 86400000000000"
    by simp
  have "sint (d * 86400000000000) = signed_take_bit 63 (sint d * 86400000000000)"
    using s by (simp add: sint_word_ariths)
  also have "\<dots> = sint d * 86400000000000"
    using assms by (intro signed_take_bit_int_eq_self) simp_all
  finally show ?thesis using eq by (simp add: day_def)
qed

lemma isKeyOld_Nil:
  "CreateDate key = Some c \<Longrightarrow>
   isKeyOld now key [] =
     Ret (if 57 * day < now - c then (True, ''57'')
          else if 50 * day < now - c then (True, ''50'') else (False, []))"
  by (simp add: isKeyOld_def Time_Before_def Time_Add_def Hour_def day_def)

lemma isKeyOld_100:
  "CreateDate key = Some c \<Longrightarrow>
   isKeyOld now key [100] =
     Ret (if 100 * day < now - c then (True, ''100'')
          else if 57 * day < now - c then (True, ''57'')
          else if 50 * day < now - c then (True, ''50'') else (False, []))"
  by (simp add: isKeyOld_def Time_Before_def Time_Add_def Hour_def day_def Sprintf_d_def
      decimal_def digits10.simps digit_char_def)

text \<open>
  C3 (as amended). For every credential with a creation date, every reading of the clock and
  every override of at most 106751 days in absolute value (so that the override times 24
  hours fits the signed 64-bit nanosecond count of a \<open>Duration\<close>), \<open>isKeyOld\<close> is the
  first-match chain of the specification: old with the override as label if an override is
  supplied and the age exceeds it; otherwise old with label 57 if the age exceeds 57 days;
  otherwise old with label 50 if the age exceeds 50 days; otherwise not old, with the empty
  label.
\<close>

theorem isKeyOld_classify:
  assumes "CreateDate key = Some created"
    and "case olderThan of [] \<Rightarrow> True | d # rest \<Rightarrow> - 106751 \<le> sint d \<and> sint d \<le> 106751"
  shows "isKeyOld now key olderThan =
           Ret (spec_classify (now - created) (override_of olderThan))"
proof (cases olderThan)
  case Nil
  then show ?thesis
    using assms(1) by (simp add: isKeyOld_Nil spec_classify_def override_of_def)
next
  case (Cons d rest)
  with assms(2) have "sint (d * 24 * Hour) = sint d * day"
    by (simp add: sint_days)
  moreover have "sint (57 * 24 * Hour) = 57 * day" "sint (50 * 24 * Hour) = 50 * day"
    by (simp_all add: Hour_def day_def)
  ultimately show ?thesis
    using assms(1) Cons
    by (simp add: isKeyOld_def spec_classify_def override_of_def Time_Before_def Time_Add_def
        Sprintf_d_def)
qed

theorem isKeyOld_classify_witness:
  "CreateDate alice_key = Some 0 \<and>
   - 106751 \<le> sint (100 :: go_int) \<and> sint (100 :: go_int) \<le> 106751 \<and>
   isKeyOld (120 * day) alice_key [100] =
     Ret (spec_classify (120 * day - 0) (override_of [100])) \<and>
   spec_classify (120 * day - 0) (override_of [100]) = (True, ''100'')"
  using isKeyOld_classify [of alice_key 0 "[100]" "120 * day"]
  by (simp add: alice_key_def spec_classify_def override_of_def day_def decimal_def
      digits10.simps digit_char_def)

text \<open>
  The chain as the specification words it fails beyond that range: 106752 days times 24
  hours wraps to a negative \<open>Duration\<close>, and a key created one day ago is classified old
  with the label 106752, although its age does not exceed 106752 days.
\<close>

theorem isKeyOld_override_wraps:
  "isKeyOld day alice_key [106752] = Ret (True, ''106752'') \<and>
   spec_classify (day - 0) (override_of [106752]) = (False, []) \<and>
   isKeyOld day alice_key [106752] \<noteq> Ret (spec_classify (day - 0) (override_of [106752]))"
  by (simp add: isKeyOld_def alice_key_def spec_classify_def override_of_def day_def
      Time_Before_def Time_Add_def Hour_def Sprintf_d_def decimal_def
      digits10.simps digit_char_def)

section \<open>The deletion gate\<close>

text \<open>
  C1. The claim: for every notice the deletion call is issued if and only if the age of
  the credential exceeds 100 days and \<open>DRY_RUN\<close> is the sentinel. The code evaluated at a
  notice whose key is 60 days old, with the sentinel set: \<open>isKeyOld\<close> with the override 100
  falls through to the 57-day test and reports the key old, and the deletion call is issued
  although the age does not exceed 100 days.
\<close>

theorem HandleLabdaEvent_range_deletes_at_60_days:
  "HandleLabdaEvent_range (alice_env ''--dry-run'' 60) [alice_notice] =
     (Ret (),
      [SendEmailCall \<lparr>ToAddresses = [''a@x.com''],
                      BodyText = ''Your secret keys are older than 57 days and will be deleted.'',
                      Subject = ''Secret Key Expiration Warning'', Source = ''ops@x.com''\<rparr>,
       Println ''Email sent successfully.'',
       DeleteAccessKeyCall \<lparr>del_AccessKeyId = ''AKIA1'', del_UserName = ''alice''\<rparr>,
       Println ''ok'']) \<and>
   \<not> 100 * day < Now (alice_env ''--dry-run'' 60) - 0"
  by (simp add: alice_env_def alice_notice_def alice_key_def isKeyOld_100 sendEmail_def
      deleteKeys_def day_def)

text \<open>
  C2. The claim: a principal with an email tag and one credential created 60 days ago gives
  one notice with label 57, one notification, and no deletion whatever the value of
  \<open>DRY_RUN\<close>. The whole handler evaluated on that principal with the sentinel set: one
  notice with label 57 and one notification, as claimed, and then the deletion call for the
  60 days old key.
\<close>

theorem HandleLabdaEvent_deletes_alice_key:
  "getDefaultedUsers (alice_env ''--dry-run'' 60) =
     Some (Ret ([alice_notice], None),
           [Println ''Access key AKIA1 for user alice is older than 60 days.'']) \<and>
   HandleLabdaEvent (alice_env ''--dry-run'' 60) =
     Some (Ret None,
      [Println ''Access key AKIA1 for user alice is older than 60 days.'',
       SendEmailCall \<lparr>ToAddresses = [''a@x.com''],
                      BodyText = ''Your secret keys are older than 57 days and will be deleted.'',
                      Subject = ''Secret Key Expiration Warning'', Source = ''ops@x.com''\<rparr>,
       Println ''Email sent successfully.'',
       DeleteAccessKeyCall \<lparr>del_AccessKeyId = ''AKIA1'', del_UserName = ''alice''\<rparr>,
       Println ''ok''])"
  by (simp add: HandleLabdaEvent_def getDefaultedUsers_def listAllUsers_def
      listAllUsers_loop.simps getUserEmailTag_def getUserEmailTag_loop.simps
      listAllAccessKeys_def listAllAccessKeys_loop.simps alice_notice_def
      alice_env_def alice_key_def isKeyOld_100 isKeyOld_Nil sendEmail_def
      deleteKeys_def day_def)

section \<open>Pagination\<close>

lemma listAllUsers_loop_pages:
  "pages_from (ListUsers env) users_Marker m ps \<Longrightarrow>
   listAllUsers_loop env m acc = Some (acc @ concat (map Users ps), None)"
proof (induction ps arbitrary: m acc)
  case Nil
  then show ?case by simp
next
  case (Cons p ps)
  show ?case
  proof (cases "users_Marker p")
    case None
    with Cons.prems show ?thesis
      by (subst listAllUsers_loop.simps) simp
  next
    case (Some m')
    with Cons.prems have "pages_from (ListUsers env) users_Marker (Some m') ps"
      by simp
    then have "listAllUsers_loop env (Some m') (acc @ Users p) =
                 Some ((acc @ Users p) @ concat (map Users ps), None)"
      by (rule Cons.IH)
    with Cons.prems Some show ?thesis
      by (subst listAllUsers_loop.simps) simp
  qed
qed

lemma listAllUsers_loop_fails:
  "fails_after (ListUsers env) users_Marker m ps e \<Longrightarrow>
   listAllUsers_loop env m acc = Some ([], Some (Errorf ''error listing users: '' e))"
proof (induction ps arbitrary: m acc)
  case Nil
  then show ?case by (subst listAllUsers_loop.simps) simp
next
  case (Cons p ps)
  then show ?case
    by (subst listAllUsers_loop.simps) (auto split: option.splits)
qed

lemma listAllAccessKeys_loop_pages:
  "pages_from (ListAccessKeys env n) keys_Marker m ps \<Longrightarrow>
   listAllAccessKeys_loop env n m acc = Some (acc @ concat (map Keys ps), None)"
proof (induction ps arbitrary: m acc)
  case Nil
  then show ?case by simp
next
  case (Cons p ps)
  show ?case
  proof (cases "keys_Marker p")
    case None
    with Cons.prems show ?thesis
      by (subst listAllAccessKeys_loop.simps) simp
  next
    case (Some m')
    with Cons.prems have "pages_from (ListAccessKeys env n) keys_Marker (Some m') ps"
      by simp
    then have "listAllAccessKeys_loop env n (Some m') (acc @ Keys p) =
                 Some ((acc @ Keys p) @ concat (map Keys ps), None)"
      by (rule Cons.IH)
    with Cons.prems Some show ?thesis
      by (subst listAllAccessKeys_loop.simps) simp
  qed
qed

lemma listAllAccessKeys_loop_fails:
  "fails_after (ListAccessKeys env n) keys_Marker m ps e \<Longrightarrow>
   listAllAccessKeys_loop env n m acc =
     Some ([], Some (Errorf ''error listing access keys: '' e))"
proof (induction ps arbitrary: m acc)
  case Nil
  then show ?case by (subst listAllAccessKeys_loop.simps) simp
next
  case (Cons p ps)
  then show ?case
    by (subst listAllAccessKeys_loop.simps) (auto split: option.splits)
qed

text \<open>
  C6. For each of the two aggregating listings (users, access keys): when the service
  answers with the pages \<open>ps\<close>, a marker on every page but the last, the loop returns, and
  it returns exactly the concatenation of the items of all the pages, each once, in page
  order, with no error.
\<close>

theorem listAll_concat_pages:
  "(pages_from (ListUsers env) users_Marker None ps \<longrightarrow>
      listAllUsers env = Some (concat (map Users ps), None)) \<and>
   (pages_from (ListAccessKeys env (UserName user)) keys_Marker None qs \<longrightarrow>
      listAllAccessKeys env user = Some (concat (map Keys qs), None))"
  using listAllUsers_loop_pages [of env None ps "[]"]
    listAllAccessKeys_loop_pages [of env "UserName user" None qs "[]"]
  by (simp add: listAllUsers_def listAllAccessKeys_def)

theorem listAll_concat_pages_witness:
  "pages_from (ListUsers paged_env) users_Marker None
     [\<lparr>Users = [\<lparr>UserName = Some ''bob''\<rparr>], users_Marker = Some ''u2''\<rparr>,
      \<lparr>Users = [\<lparr>UserName = Some ''alice''\<rparr>], users_Marker = None\<rparr>] \<and>
   listAllUsers paged_env =
     Some ([\<lparr>UserName = Some ''bob''\<rparr>, \<lparr>UserName = Some ''alice''\<rparr>], None) \<and>
   pages_from (ListAccessKeys paged_env (UserName \<lparr>UserName = Some ''alice''\<rparr>)) keys_Marker None
     [\<lparr>Keys = [\<lparr>AccessKeyId = Some ''AKIA1'', CreateDate = Some 0\<rparr>,
               \<lparr>AccessKeyId = Some ''AKIA2'', CreateDate = Some (110 * day)\<rparr>],
       keys_Marker = Some ''k2''\<rparr>,
      \<lparr>Keys = [\<lparr>AccessKeyId = Some ''AKIA3'', CreateDate = Some (65 * day)\<rparr>],
       keys_Marker = None\<rparr>] \<and>
   listAllAccessKeys paged_env \<lparr>UserName = Some ''alice''\<rparr> =
     Some ([\<lparr>AccessKeyId = Some ''AKIA1'', CreateDate = Some 0\<rparr>,
            \<lparr>AccessKeyId = Some ''AKIA2'', CreateDate = Some (110 * day)\<rparr>,
            \<lparr>AccessKeyId = Some ''AKIA3'', CreateDate = Some (65 * day)\<rparr>], None)"
  using listAll_concat_pages [of paged_env
     "[\<lparr>Users = [\<lparr>UserName = Some ''bob''\<rparr>], users_Marker = Some ''u2''\<rparr>,
      \<lparr>Users = [\<lparr>UserName = Some ''alice''\<rparr>], users_Marker = None\<rparr>]"
     "\<lparr>UserName = Some ''alice''\<rparr>"
     "[\<lparr>Keys = [\<lparr>AccessKeyId = Some ''AKIA1'', CreateDate = Some 0\<rparr>,
               \<lparr>AccessKeyId = Some ''AKIA2'', CreateDate = Some (110 * day)\<rparr>],
       keys_Marker = Some ''k2''\<rparr>,
      \<lparr>Keys = [\<lparr>AccessKeyId = Some ''AKIA3'', CreateDate = Some (65 * day)\<rparr>],
       keys_Marker = None\<rparr>]"]
  by (simp add: paged_env_def)


section \<open>The email tag\<close>

lemma getUserEmailTag_tags_append:
  "getUserEmailTag_tags (xs @ ys) =
     (case getUserEmailTag_tags xs of
        Panic \<Rightarrow> Panic
      | Ret None \<Rightarrow> getUserEmailTag_tags ys
      | Ret (Some v) \<Rightarrow> Ret (Some v))"
  by (induction xs) (auto split: option.splits)

lemma getUserEmailTag_loop_pages:
  "pages_from (ListUserTags env n) tags_Marker m ps \<Longrightarrow>
   getUserEmailTag_loop env n m =
     Some (case getUserEmailTag_tags (concat (map Tags ps)) of
             Panic \<Rightarrow> Panic
           | Ret None \<Rightarrow> Ret ([], None)
           | Ret (Some v) \<Rightarrow> Ret (v, None))"
proof (induction ps arbitrary: m)
  case Nil
  then show ?case by simp
next
  case (Cons p ps)
  then show ?case
    by (subst getUserEmailTag_loop.simps)
      (auto simp: getUserEmailTag_tags_append split: option.splits outcome.splits)
qed

lemma getUserEmailTag_loop_fails:
  "fails_after (ListUserTags env n) tags_Marker m ps e \<Longrightarrow>
   getUserEmailTag_tags (concat (map Tags ps)) = Ret None \<Longrightarrow>
   getUserEmailTag_loop env n m = Some (Ret ([], Some (Errorf ''error listing tags: '' e)))"
proof (induction ps arbitrary: m)
  case Nil
  then show ?case by (subst getUserEmailTag_loop.simps) simp
next
  case (Cons p ps)
  then show ?case
    by (subst getUserEmailTag_loop.simps)
      (auto simp: getUserEmailTag_tags_append split: option.splits outcome.splits)
qed

lemma getUserEmailTag_tags_empty_email:
  "\<forall>t \<in> set ts. Key t \<noteq> None \<and> (Key t = Some ''email'' \<longrightarrow> Value t = Some []) \<Longrightarrow>
   getUserEmailTag_tags ts = Ret None \<or> getUserEmailTag_tags ts = Ret (Some [])"
  by (induction ts) (auto split: option.splits)

lemma getUserEmailTag_tags_no_panic:
  "\<forall>t \<in> set ts. Key t \<noteq> None \<and> Value t \<noteq> None \<Longrightarrow> getUserEmailTag_tags ts \<noteq> Panic"
  by (induction ts) (auto split: option.splits)

lemma getUserEmailTag_skip:
  "getUserEmailTag env user = Some (Ret ([], None)) \<Longrightarrow>
   getDefaultedUsers_users env (before @ user # after) acc =
   getDefaultedUsers_users env (before @ after) acc"
proof (induction before arbitrary: acc)
  case Nil
  then show ?case by simp
next
  case (Cons a before)
  then show ?case
    by (simp split: option.splits outcome.splits prod.splits)
qed

text \<open>
  C5. A principal whose tags (all the pages of its tag listing, every key populated) hold
  no tag with the key \<open>email\<close>, or hold it with the empty string as value, gets the empty
  string from \<open>getUserEmailTag\<close> and is skipped: wherever it stands in the list of
  principals, the enumeration (notices and printed lines) is the one of the list without
  it. Its access keys are not listed, so no notice, notification or deletion comes from
  them.
\<close>

theorem no_email_no_notice:
  assumes "pages_from (ListUserTags env (UserName user)) tags_Marker None ps"
    and "\<forall>t \<in> set (concat (map Tags ps)).
           Key t \<noteq> None \<and> (Key t = Some ''email'' \<longrightarrow> Value t = Some [])"
  shows "getUserEmailTag env user = Some (Ret ([], None)) \<and>
         getDefaultedUsers_users env (before @ user # after) acc =
         getDefaultedUsers_users env (before @ after) acc"
proof -
  from assms(2) have "getUserEmailTag_tags (concat (map Tags ps)) = Ret None \<or>
      getUserEmailTag_tags (concat (map Tags ps)) = Ret (Some [])"
    by (rule getUserEmailTag_tags_empty_email)
  with getUserEmailTag_loop_pages [OF assms(1)]
  have "getUserEmailTag env user = Some (Ret ([], None))"
    by (auto simp: getUserEmailTag_def)
  then show ?thesis
    by (simp add: getUserEmailTag_skip)
qed

theorem no_email_no_notice_witness:
  "pages_from (ListUserTags paged_env (UserName \<lparr>UserName = Some ''bob''\<rparr>)) tags_Marker None
     [\<lparr>Tags = [\<lparr>Key = Some ''team'', Value = Some ''core''\<rparr>], tags_Marker = Some ''t2''\<rparr>,
      \<lparr>Tags = [\<lparr>Key = Some ''Email'', Value = Some ''b@x.com''\<rparr>], tags_Marker = None\<rparr>] \<and>
   getUserEmailTag paged_env \<lparr>UserName = Some ''bob''\<rparr> = Some (Ret ([], None)) \<and>
   getDefaultedUsers_users paged_env
      ([\<lparr>UserName = Some ''alice''\<rparr>] @ \<lparr>UserName = Some ''bob''\<rparr> # []) [] =
   getDefaultedUsers_users paged_env ([\<lparr>UserName = Some ''alice''\<rparr>] @ []) []"
  using no_email_no_notice [of paged_env "\<lparr>UserName = Some ''bob''\<rparr>"
     "[\<lparr>Tags = [\<lparr>Key = Some ''team'', Value = Some ''core''\<rparr>], tags_Marker = Some ''t2''\<rparr>,
      \<lparr>Tags = [\<lparr>Key = Some ''Email'', Value = Some ''b@x.com''\<rparr>], tags_Marker = None\<rparr>]"
     "[\<lparr>UserName = Some ''alice''\<rparr>]" "[]" "[]"]
  by (simp add: paged_env_def)


section \<open>The enumeration\<close>

lemma isKeyOld_Ret_CreateDate:
  "isKeyOld now key olderThan = Ret r \<Longrightarrow> CreateDate key \<noteq> None"
  by (simp add: isKeyOld_def split: option.splits)

lemma getDefaultedUsers_keys_Ret:
  "getDefaultedUsers_keys now user email keys acc = (Ret acc', log) \<Longrightarrow>
   acc' = acc @ map (notice_for user email now) (filter (classified_old now) keys)"
proof (induction keys arbitrary: acc log)
  case Nil
  then show ?case by simp
next
  case (Cons key keys)
  show ?case
  proof (cases "isKeyOld now key []")
    case Panic
    with Cons.prems show ?thesis by simp
  next
    case (Ret r)
    obtain old days where r: "r = (old, days)" by (cases r)
    from Ret r have c: "classified_old now key = old" and t: "threshold_label now key = days"
      by (simp_all add: classified_old_def threshold_label_def)
    show ?thesis
    proof (cases old)
      case False
      with Ret r Cons.prems
      have "getDefaultedUsers_keys now user email keys acc = (Ret acc', log)"
        by simp
      then have "acc' = acc @ map (notice_for user email now) (filter (classified_old now) keys)"
        by (rule Cons.IH)
      with c False show ?thesis by simp
    next
      case True
      with Ret r Cons.prems obtain keyId userName log' where
        k: "AccessKeyId key = Some keyId" and u: "UserName user = Some userName"
        and rec: "getDefaultedUsers_keys now user email keys
             (acc @ [\<lparr>du_UserName = userName, Email = email, du_Key = key, OlderThan = days\<rparr>]) =
             (Ret acc', log')"
        by (auto split: option.splits prod.splits)
      from rec have "acc' = (acc @ [\<lparr>du_UserName = userName, Email = email, du_Key = key,
             OlderThan = days\<rparr>]) @
          map (notice_for user email now) (filter (classified_old now) keys)"
        by (rule Cons.IH)
      with c t True u show ?thesis
        by (simp add: notice_for_def)
    qed
  qed
qed

lemma getDefaultedUsers_keys_populated:
  "getDefaultedUsers_keys now user email keys acc = (Ret acc', log) \<Longrightarrow>
   \<forall>u \<in> set acc. populated_key (du_Key u) \<Longrightarrow>
   \<forall>u \<in> set acc'. populated_key (du_Key u)"
proof (induction keys arbitrary: acc log)
  case Nil
  then show ?case by simp
next
  case (Cons key keys)
  show ?case
  proof (cases "isKeyOld now key []")
    case Panic
    with Cons.prems show ?thesis by simp
  next
    case (Ret r)
    obtain old days where r: "r = (old, days)" by (cases r)
    show ?thesis
    proof (cases old)
      case False
      with Ret r Cons.prems
      have "getDefaultedUsers_keys now user email keys acc = (Ret acc', log)"
        by simp
      then show ?thesis using Cons.prems(2) by (rule Cons.IH)
    next
      case True
      with Ret r Cons.prems obtain keyId userName log' where
        k: "AccessKeyId key = Some keyId" and u: "UserName user = Some userName"
        and rec: "getDefaultedUsers_keys now user email keys
             (acc @ [\<lparr>du_UserName = userName, Email = email, du_Key = key, OlderThan = days\<rparr>]) =
             (Ret acc', log')"
        by (auto split: option.splits prod.splits)
      from Ret have "CreateDate key \<noteq> None"
        by (rule isKeyOld_Ret_CreateDate)
      with k Cons.prems(2)
      have "\<forall>u \<in> set (acc @ [\<lparr>du_UserName = userName, Email = email, du_Key = key,
             OlderThan = days\<rparr>]). populated_key (du_Key u)"
        by (simp add: populated_key_def)
      with rec show ?thesis by (rule Cons.IH)
    qed
  qed
qed

lemma getDefaultedUsers_keys_events:
  "getDefaultedUsers_keys now user email keys acc = (r, log) \<Longrightarrow>
   deletions log = [] \<and> notifications log = []"
proof (induction keys arbitrary: acc r log)
  case Nil
  then show ?case by simp
next
  case (Cons key keys)
  then show ?case
    by (fastforce split: outcome.splits option.splits prod.splits if_splits)
qed

lemma getDefaultedUsers_keys_no_panic:
  "getDefaultedUsers_keys now user email keys acc = (r, log) \<Longrightarrow>
   UserName user \<noteq> None \<Longrightarrow> \<forall>k \<in> set keys. populated_key k \<Longrightarrow> r \<noteq> Panic"
proof (induction keys arbitrary: acc r log)
  case Nil
  then show ?case by auto
next
  case (Cons key keys)
  from Cons.prems(3) obtain c keyId where c: "CreateDate key = Some c"
    and k: "AccessKeyId key = Some keyId" and rest: "\<forall>k \<in> set keys. populated_key k"
    by (auto simp: populated_key_def)
  from Cons.prems(2) obtain userName where u: "UserName user = Some userName"
    by auto
  obtain old days where o: "isKeyOld now key [] = Ret (old, days)"
    using isKeyOld_Nil [OF c] by (cases "57 * day < now - c"; cases "50 * day < now - c") auto
  show ?case
  proof (cases old)
    case False
    with o Cons.prems(1) have "getDefaultedUsers_keys now user email keys acc = (r, log)"
      by simp
    then show ?thesis using Cons.prems(2) rest by (rule Cons.IH)
  next
    case True
    with o k u Cons.prems(1) obtain log' where
      "getDefaultedUsers_keys now user email keys
             (acc @ [\<lparr>du_UserName = userName, Email = email, du_Key = key, OlderThan = days\<rparr>]) =
             (r, log')"
      by (auto split: prod.splits)
    then show ?thesis using Cons.prems(2) rest by (rule Cons.IH)
  qed
qed


lemma getDefaultedUsers_users_Cons_cases:
  assumes "getDefaultedUsers_users env (user # users) acc = Some (r, log)"
  obtains
    (tag_panic) "getUserEmailTag env user = Some Panic" and "r = Panic" and "log = []"
  | (tag_error) email err where "getUserEmailTag env user = Some (Ret (email, Some err))"
      and "r = Ret ([], Some err)" and "log = []"
  | (skip) "getUserEmailTag env user = Some (Ret ([], None))"
      and "getDefaultedUsers_users env users acc = Some (r, log)"
  | (keys_error) email keys err where "getUserEmailTag env user = Some (Ret (email, None))"
      and "email \<noteq> []" and "listAllAccessKeys env user = Some (keys, Some err)"
      and "r = Ret ([], Some err)" and "log = []"
  | (keys_panic) email keys where "getUserEmailTag env user = Some (Ret (email, None))"
      and "email \<noteq> []" and "listAllAccessKeys env user = Some (keys, None)"
      and "getDefaultedUsers_keys (Now env) user email keys acc = (Panic, log)"
      and "r = Panic"
  | (continue) email keys acc1 log1 log2 where
      "getUserEmailTag env user = Some (Ret (email, None))"
      and "email \<noteq> []" and "listAllAccessKeys env user = Some (keys, None)"
      and "getDefaultedUsers_keys (Now env) user email keys acc = (Ret acc1, log1)"
      and "getDefaultedUsers_users env users acc1 = Some (r, log2)"
      and "log = log1 @ log2"
proof (cases "getUserEmailTag env user")
  case None
  with assms show ?thesis by simp
next
  case (Some t)
  show ?thesis
  proof (cases t)
    case Panic
    with Some assms show ?thesis by (intro tag_panic) simp_all
  next
    case (Ret p)
    obtain email e where p: "p = (email, e)" by (cases p)
    show ?thesis
    proof (cases e)
      case (Some err)
      with \<open>getUserEmailTag env user = Some t\<close> Ret p assms show ?thesis
        by (intro tag_error [of email err]) simp_all
    next
      case None
      note tag = \<open>getUserEmailTag env user = Some t\<close> [unfolded Ret p None]
      show ?thesis
      proof (cases "email = []")
        case True
        with tag assms show ?thesis by (intro skip) simp_all
      next
        case False
        show ?thesis
        proof (cases "listAllAccessKeys env user")
          case None
          with tag False assms show ?thesis by simp
        next
          case (Some q)
          obtain keys e' where q: "q = (keys, e')" by (cases q)
          note lk = Some [unfolded q]
          show ?thesis
          proof (cases e')
            case (Some err)
            with tag False lk assms show ?thesis
              by (intro keys_error [of email keys err]) simp_all
          next
            case None
            note lk = lk [unfolded None]
            obtain kr klog where
              kl: "getDefaultedUsers_keys (Now env) user email keys acc = (kr, klog)"
              by (cases "getDefaultedUsers_keys (Now env) user email keys acc")
            show ?thesis
            proof (cases kr)
              case Panic
              with tag False lk kl assms show ?thesis
                by (intro keys_panic [of email keys]) simp_all
            next
              case (Ret acc1)
              note kl = kl [unfolded Ret]
              show ?thesis
              proof (cases "getDefaultedUsers_users env users acc1")
                case None
                with tag False lk kl assms show ?thesis by simp
              next
                case (Some z)
                obtain r2 log2 where z: "z = (r2, log2)" by (cases z)
                with Some tag False lk kl assms show ?thesis
                  by (intro continue [of email keys acc1 klog log2]) simp_all
              qed
            qed
          qed
        qed
      qed
    qed
  qed
qed

lemma getDefaultedUsers_users_Ret:
  "getDefaultedUsers_users env users acc = Some (Ret (acc', None), log) \<Longrightarrow>
   acc' = acc @ concat (map (notices_of env) users)"
proof (induction users arbitrary: acc log)
  case Nil
  then show ?case by simp
next
  case (Cons user users)
  from Cons.prems show ?case
  proof (cases rule: getDefaultedUsers_users_Cons_cases)
    case skip
    from skip(1) have "notices_of env user = []"
      by (simp add: notices_of_def)
    moreover from skip(2) have "acc' = acc @ concat (map (notices_of env) users)"
      by (rule Cons.IH)
    ultimately show ?thesis by simp
  next
    case (continue email keys acc1 log1 log2)
    from continue(1-3)
    have "notices_of env user =
            map (notice_for user email (Now env)) (filter (classified_old (Now env)) keys)"
      by (simp add: notices_of_def)
    moreover from continue(4)
    have "acc1 = acc @ map (notice_for user email (Now env))
                        (filter (classified_old (Now env)) keys)"
      by (rule getDefaultedUsers_keys_Ret)
    moreover from continue(5) have "acc' = acc1 @ concat (map (notices_of env) users)"
      by (rule Cons.IH)
    ultimately show ?thesis by simp
  qed simp_all
qed

lemma getDefaultedUsers_users_error:
  "getDefaultedUsers_users env users acc = Some (Ret (acc', Some e), log) \<Longrightarrow> acc' = []"
proof (induction users arbitrary: acc log)
  case Nil
  then show ?case by simp
next
  case (Cons user users)
  from Cons.prems show ?case
  proof (cases rule: getDefaultedUsers_users_Cons_cases)
    case skip
    from skip(2) show ?thesis by (rule Cons.IH)
  next
    case (continue email keys acc1 log1 log2)
    from continue(5) show ?thesis by (rule Cons.IH)
  qed simp_all
qed

lemma deletions_append: "deletions (xs @ ys) = deletions xs @ deletions ys"
  by (induction xs rule: deletions.induct) simp_all

lemma notifications_append: "notifications (xs @ ys) = notifications xs @ notifications ys"
  by (induction xs rule: notifications.induct) simp_all

lemma getDefaultedUsers_users_events:
  "getDefaultedUsers_users env users acc = Some (r, log) \<Longrightarrow>
   deletions log = [] \<and> notifications log = []"
proof (induction users arbitrary: acc r log)
  case Nil
  then show ?case by simp
next
  case (Cons user users)
  from Cons.prems show ?case
  proof (cases rule: getDefaultedUsers_users_Cons_cases)
    case skip
    from skip(2) show ?thesis by (rule Cons.IH)
  next
    case (keys_panic email keys)
    from keys_panic(4) show ?thesis by (rule getDefaultedUsers_keys_events)
  next
    case (continue email keys acc1 log1 log2)
    from continue(4) have "deletions log1 = [] \<and> notifications log1 = []"
      by (rule getDefaultedUsers_keys_events)
    moreover from continue(5) have "deletions log2 = [] \<and> notifications log2 = []"
      by (rule Cons.IH)
    ultimately show ?thesis using continue(6)
      by (simp add: deletions_append notifications_append)
  qed simp_all
qed

lemma getDefaultedUsers_users_populated:
  "getDefaultedUsers_users env users acc = Some (Ret (acc', err), log) \<Longrightarrow>
   \<forall>u \<in> set acc. populated_key (du_Key u) \<Longrightarrow>
   \<forall>u \<in> set acc'. populated_key (du_Key u)"
proof (induction users arbitrary: acc log)
  case Nil
  then show ?case by simp
next
  case (Cons user users)
  from Cons.prems(1) show ?case
  proof (cases rule: getDefaultedUsers_users_Cons_cases)
    case skip
    from skip(2) Cons.prems(2) show ?thesis by (rule Cons.IH)
  next
    case (continue email keys acc1 log1 log2)
    from continue(4) Cons.prems(2) have "\<forall>u \<in> set acc1. populated_key (du_Key u)"
      by (rule getDefaultedUsers_keys_populated)
    with continue(5) show ?thesis by (rule Cons.IH)
  qed simp_all
qed


lemma getDefaultedUsers_users_append:
  "getDefaultedUsers_users env us1 acc = Some (Ret (acc1, None), log1) \<Longrightarrow>
   getDefaultedUsers_users env (us1 @ us2) acc =
     (case getDefaultedUsers_users env us2 acc1 of
        None \<Rightarrow> None
      | Some (r, log2) \<Rightarrow> Some (r, log1 @ log2))"
proof (induction us1 arbitrary: acc log1)
  case Nil
  then show ?case by (simp split: option.splits)
next
  case (Cons user us1)
  from Cons.prems show ?case
  proof (cases rule: getDefaultedUsers_users_Cons_cases)
    case skip
    from skip(2) have "getDefaultedUsers_users env (us1 @ us2) acc =
        (case getDefaultedUsers_users env us2 acc1 of
           None \<Rightarrow> None | Some (r, log2) \<Rightarrow> Some (r, log1 @ log2))"
      by (rule Cons.IH)
    with skip(1) show ?thesis by simp
  next
    case (continue email keys acc2 l1 l2)
    from continue(5) have "getDefaultedUsers_users env (us1 @ us2) acc2 =
        (case getDefaultedUsers_users env us2 acc1 of
           None \<Rightarrow> None | Some (r, log2) \<Rightarrow> Some (r, l2 @ log2))"
      by (rule Cons.IH)
    with continue(1-4,6) show ?thesis by (simp split: option.splits)
  qed simp_all
qed

section \<open>Populated records\<close>

lemma listAllUsers_loop_all:
  assumes "listAllUsers_loop env m acc = Some r"
  shows "(\<forall>m res u. ListUsers env m = Inr res \<longrightarrow> u \<in> set (Users res) \<longrightarrow> P u) \<longrightarrow>
         (\<forall>u \<in> set acc. P u) \<longrightarrow> (\<forall>u \<in> set (fst r). P u)"
proof (induction env m acc r rule: listAllUsers_loop.raw_induct)
  case (1 loop env marker users r)
  show ?case
  proof (cases "ListUsers env marker")
    case (Inl e)
    with 1(2) have "fst r = []" by auto
    then show ?thesis by simp
  next
    case (Inr res)
    show ?thesis
    proof (cases "users_Marker res")
      case None
      with Inr 1(2) have r: "fst r = users @ Users res" by auto
      show ?thesis
      proof (intro impI)
        assume a: "\<forall>m res u. ListUsers env m = Inr res \<longrightarrow> u \<in> set (Users res) \<longrightarrow> P u"
          and b: "\<forall>u \<in> set users. P u"
        from a Inr have "\<forall>u \<in> set (Users res). P u" by blast
        with b r show "\<forall>u \<in> set (fst r). P u" by auto
      qed
    next
      case (Some m')
      with Inr 1(2) have "loop env (Some m') (users @ Users res) = Some r"
        by simp
      then have IH: "(\<forall>m res u. ListUsers env m = Inr res \<longrightarrow> u \<in> set (Users res) \<longrightarrow> P u) \<longrightarrow>
         (\<forall>u \<in> set (users @ Users res). P u) \<longrightarrow> (\<forall>u \<in> set (fst r). P u)"
        by (rule 1(1))
      show ?thesis
      proof (intro impI)
        assume a: "\<forall>m res u. ListUsers env m = Inr res \<longrightarrow> u \<in> set (Users res) \<longrightarrow> P u"
          and b: "\<forall>u \<in> set users. P u"
        from a Inr have "\<forall>u \<in> set (Users res). P u" by blast
        with b have "\<forall>u \<in> set (users @ Users res). P u" by auto
        with IH a show "\<forall>u \<in> set (fst r). P u" by blast
      qed
    qed
  qed
next
  case 2
  show ?case by (rule assms)
qed

lemma listAllAccessKeys_loop_all:
  assumes "listAllAccessKeys_loop env n m acc = Some r"
  shows "(\<forall>m res k. ListAccessKeys env n m = Inr res \<longrightarrow> k \<in> set (Keys res) \<longrightarrow> P k) \<longrightarrow>
         (\<forall>k \<in> set acc. P k) \<longrightarrow> (\<forall>k \<in> set (fst r). P k)"
proof (induction env n m acc r rule: listAllAccessKeys_loop.raw_induct)
  case (1 loop env name marker keys r)
  show ?case
  proof (cases "ListAccessKeys env name marker")
    case (Inl e)
    with 1(2) have "fst r = []" by auto
    then show ?thesis by simp
  next
    case (Inr res)
    show ?thesis
    proof (cases "keys_Marker res")
      case None
      with Inr 1(2) have r: "fst r = keys @ Keys res" by auto
      show ?thesis
      proof (intro impI)
        assume a: "\<forall>m res k. ListAccessKeys env name m = Inr res \<longrightarrow> k \<in> set (Keys res) \<longrightarrow> P k"
          and b: "\<forall>k \<in> set keys. P k"
        from a Inr have "\<forall>k \<in> set (Keys res). P k" by blast
        with b r show "\<forall>k \<in> set (fst r). P k" by auto
      qed
    next
      case (Some m')
      with Inr 1(2) have "loop env name (Some m') (keys @ Keys res) = Some r"
        by simp
      then have IH: "(\<forall>m res k. ListAccessKeys env name m = Inr res \<longrightarrow> k \<in> set (Keys res) \<longrightarrow> P k) \<longrightarrow>
         (\<forall>k \<in> set (keys @ Keys res). P k) \<longrightarrow> (\<forall>k \<in> set (fst r). P k)"
        by (rule 1(1))
      show ?thesis
      proof (intro impI)
        assume a: "\<forall>m res k. ListAccessKeys env name m = Inr res \<longrightarrow> k \<in> set (Keys res) \<longrightarrow> P k"
          and b: "\<forall>k \<in> set keys. P k"
        from a Inr have "\<forall>k \<in> set (Keys res). P k" by blast
        with b have "\<forall>k \<in> set (keys @ Keys res). P k" by auto
        with IH a show "\<forall>k \<in> set (fst r). P k" by blast
      qed
    qed
  qed
next
  case 2
  show ?case by (rule assms)
qed

lemma getUserEmailTag_loop_no_panic:
  assumes "getUserEmailTag_loop env n m = Some r"
  shows "(\<forall>m res t. ListUserTags env n m = Inr res \<longrightarrow> t \<in> set (Tags res) \<longrightarrow>
            Key t \<noteq> None \<and> Value t \<noteq> None) \<longrightarrow> r \<noteq> Panic"
proof (induction env n m r rule: getUserEmailTag_loop.raw_induct)
  case (1 loop env name marker r)
  show ?case
  proof (cases "ListUserTags env name marker")
    case (Inl e)
    with 1(2) show ?thesis by auto
  next
    case (Inr res)
    show ?thesis
    proof
      assume pop: "\<forall>m res t. ListUserTags env name m = Inr res \<longrightarrow> t \<in> set (Tags res) \<longrightarrow>
            Key t \<noteq> None \<and> Value t \<noteq> None"
      with Inr have "\<forall>t \<in> set (Tags res). Key t \<noteq> None \<and> Value t \<noteq> None"
        by blast
      then have np: "getUserEmailTag_tags (Tags res) \<noteq> Panic"
        by (rule getUserEmailTag_tags_no_panic)
      show "r \<noteq> Panic"
      proof (cases "getUserEmailTag_tags (Tags res)")
        case Panic
        with np show ?thesis by simp
      next
        case (Ret found)
        show ?thesis
        proof (cases found)
          case (Some v)
          with Ret Inr 1(2) show ?thesis by auto
        next
          case None
          show ?thesis
          proof (cases "tags_Marker res")
            case None
            with \<open>found = None\<close> Ret Inr 1(2) show ?thesis by auto
          next
            case (Some m')
            with \<open>found = None\<close> Ret Inr 1(2) have "loop env name (Some m') = Some r"
              by simp
            then have "(\<forall>m res t. ListUserTags env name m = Inr res \<longrightarrow> t \<in> set (Tags res) \<longrightarrow>
                  Key t \<noteq> None \<and> Value t \<noteq> None) \<longrightarrow> r \<noteq> Panic"
              by (rule 1(1))
            with pop show ?thesis by simp
          qed
        qed
      qed
    qed
  qed
next
  case 2
  show ?case by (rule assms)
qed

lemma populated_tags:
  "populated env \<Longrightarrow>
   \<forall>m res t. ListUserTags env n m = Inr res \<longrightarrow> t \<in> set (Tags res) \<longrightarrow>
     Key t \<noteq> None \<and> Value t \<noteq> None"
  unfolding populated_def by blast

lemma populated_keys:
  "populated env \<Longrightarrow>
   \<forall>m res k. ListAccessKeys env n m = Inr res \<longrightarrow> k \<in> set (Keys res) \<longrightarrow> populated_key k"
  unfolding populated_def by blast

lemma populated_users:
  "populated env \<Longrightarrow>
   \<forall>m res u. ListUsers env m = Inr res \<longrightarrow> u \<in> set (Users res) \<longrightarrow> UserName u \<noteq> None"
  unfolding populated_def by blast

lemma getDefaultedUsers_users_no_panic:
  "getDefaultedUsers_users env users acc = Some (r, log) \<Longrightarrow> populated env \<Longrightarrow>
   \<forall>u \<in> set users. UserName u \<noteq> None \<Longrightarrow> r \<noteq> Panic"
proof (induction users arbitrary: acc r log)
  case Nil
  then show ?case by auto
next
  case (Cons user users)
  from Cons.prems(3) have u: "UserName user \<noteq> None"
    and rest: "\<forall>u \<in> set users. UserName u \<noteq> None"
    by simp_all
  have tags: "getUserEmailTag env user \<noteq> Some Panic"
  proof
    assume "getUserEmailTag env user = Some Panic"
    then have "getUserEmailTag_loop env (UserName user) None = Some Panic"
      by (simp add: getUserEmailTag_def)
    from getUserEmailTag_loop_no_panic [OF this] populated_tags [OF Cons.prems(2)]
    show False by simp
  qed
  from Cons.prems(1) show ?case
  proof (cases rule: getDefaultedUsers_users_Cons_cases)
    case tag_panic
    with tags show ?thesis by simp
  next
    case skip
    from skip(2) Cons.prems(2) rest show ?thesis by (rule Cons.IH)
  next
    case (keys_panic email keys)
    from keys_panic(3) have "listAllAccessKeys_loop env (UserName user) None [] = Some (keys, None)"
      by (simp add: listAllAccessKeys_def)
    from listAllAccessKeys_loop_all [OF this, of populated_key]
      populated_keys [OF Cons.prems(2)]
    have "\<forall>k \<in> set keys. populated_key k"
      by simp
    with keys_panic(4) u have "Panic \<noteq> (Panic :: defaultedUser list outcome)"
      by (rule getDefaultedUsers_keys_no_panic)
    then show ?thesis by simp
  next
    case (continue email keys acc1 log1 log2)
    from continue(5) Cons.prems(2) rest show ?thesis by (rule Cons.IH)
  qed simp_all
qed

lemma getDefaultedUsers_no_panic:
  assumes "populated env" and "getDefaultedUsers env = Some (r, log)"
  shows "r \<noteq> Panic"
proof (cases "listAllUsers env")
  case None
  with assms(2) show ?thesis by (simp add: getDefaultedUsers_def)
next
  case (Some p)
  obtain users e where p: "p = (users, e)" by (cases p)
  show ?thesis
  proof (cases e)
    case (Some err)
    with \<open>listAllUsers env = Some p\<close> p assms(2) show ?thesis
      by (auto simp: getDefaultedUsers_def)
  next
    case None
    with \<open>listAllUsers env = Some p\<close> p
    have l: "listAllUsers_loop env None [] = Some (users, None)"
      by (simp add: listAllUsers_def)
    from listAllUsers_loop_all [OF l, of "\<lambda>u. UserName u \<noteq> None"]
      populated_users [OF assms(1)]
    have names: "\<forall>u \<in> set users. UserName u \<noteq> None"
      by simp
    from l assms(2) have "getDefaultedUsers_users env users [] = Some (r, log)"
      by (simp add: getDefaultedUsers_def listAllUsers_def)
    then show ?thesis using assms(1) names by (rule getDefaultedUsers_users_no_panic)
  qed
qed


section \<open>Runs that return\<close>

lemma getUserEmailTag_tags_email_tag:
  "\<forall>t \<in> set ts. Key t \<noteq> None \<and> Value t \<noteq> None \<Longrightarrow>
   (case getUserEmailTag_tags ts of
      Panic \<Rightarrow> Panic
    | Ret None \<Rightarrow> Ret ([], None)
    | Ret (Some v) \<Rightarrow> Ret (v, None)) = Ret (email_tag ts, None)"
  by (induction ts) (auto simp: email_tag_def)

lemma getUserEmailTag_pages_email_tag:
  assumes "pages_from (ListUserTags env (UserName user)) tags_Marker None tps"
    and "\<forall>t \<in> set (concat (map Tags tps)). Key t \<noteq> None \<and> Value t \<noteq> None"
  shows "getUserEmailTag env user = Some (Ret (email_tag (concat (map Tags tps)), None))"
  using getUserEmailTag_loop_pages [OF assms(1)] getUserEmailTag_tags_email_tag [OF assms(2)]
  by (simp add: getUserEmailTag_def)

lemma pages_from_items:
  "pages_from call marker_of m ps \<Longrightarrow> p \<in> set ps \<Longrightarrow> \<exists>m'. call m' = Inr p"
proof (induction ps arbitrary: m)
  case Nil
  then show ?case by simp
next
  case (Cons q ps)
  then show ?case
    by (cases "marker_of q") auto
qed

lemma classified_old_spec:
  "CreateDate key \<noteq> None \<Longrightarrow>
   classified_old now key = fst (spec_classify (age_of now key) None)"
  by (auto simp: classified_old_def age_of_def spec_classify_def isKeyOld_Nil)

lemma threshold_label_spec:
  "CreateDate key \<noteq> None \<Longrightarrow>
   threshold_label now key = snd (spec_classify (age_of now key) None)"
  by (auto simp: threshold_label_def age_of_def spec_classify_def isKeyOld_Nil)

lemma getDefaultedUsers_keys_total:
  assumes "UserName user \<noteq> None" and "\<forall>k \<in> set keys. populated_key k"
  shows "\<exists>log. getDefaultedUsers_keys now user email keys acc =
           (Ret (acc @ map (notice_for user email now) (filter (classified_old now) keys)), log)"
proof -
  obtain r log where g: "getDefaultedUsers_keys now user email keys acc = (r, log)"
    by (cases "getDefaultedUsers_keys now user email keys acc")
  from g assms have "r \<noteq> Panic"
    by (rule getDefaultedUsers_keys_no_panic)
  then obtain found where r: "r = Ret found" by (cases r) auto
  from g [unfolded r]
  have "found = acc @ map (notice_for user email now) (filter (classified_old now) keys)"
    by (rule getDefaultedUsers_keys_Ret)
  with g r show ?thesis by simp
qed

lemma notices_spec:
  assumes "\<forall>k \<in> set keys. populated_key k" and "email_tag tags \<noteq> []"
  shows "map (notice_for user (email_tag tags) now) (filter (classified_old now) keys) =
         spec_notices now user tags keys"
proof -
  from assms(1) have c: "\<forall>k \<in> set keys. CreateDate k \<noteq> None"
    by (simp add: populated_key_def)
  then have "filter (classified_old now) keys =
             filter (\<lambda>key. fst (spec_classify (age_of now key) None)) keys"
    by (intro filter_cong) (simp_all add: classified_old_spec)
  moreover from c have "map (notice_for user (email_tag tags) now)
        (filter (\<lambda>key. fst (spec_classify (age_of now key) None)) keys) =
      map (\<lambda>key. \<lparr>du_UserName = (case UserName user of None \<Rightarrow> [] | Some n \<Rightarrow> n),
                        Email = email_tag tags, du_Key = key,
                        OlderThan = snd (spec_classify (age_of now key) None)\<rparr>)
        (filter (\<lambda>key. fst (spec_classify (age_of now key) None)) keys)"
    by (intro map_cong) (simp_all add: notice_for_def threshold_label_spec)
  ultimately show ?thesis using assms(2)
    by (simp add: spec_notices_def)
qed

lemma getDefaultedUsers_users_total:
  assumes "\<forall>u \<in> set users.
      UserName u \<noteq> None \<and>
      getUserEmailTag env u = Some (Ret (email_tag (tags u), None)) \<and>
      (email_tag (tags u) \<noteq> [] \<longrightarrow>
         listAllAccessKeys env u = Some (keys u, None) \<and> (\<forall>k \<in> set (keys u). populated_key k))"
  shows "\<exists>log. getDefaultedUsers_users env users acc =
           Some (Ret (acc @ concat (map (\<lambda>u. spec_notices (Now env) u (tags u) (keys u)) users),
                      None), log)"
  using assms
proof (induction users arbitrary: acc)
  case Nil
  then show ?case by simp
next
  case (Cons user users)
  from Cons.prems have name: "UserName user \<noteq> None"
    and tag: "getUserEmailTag env user = Some (Ret (email_tag (tags user), None))"
    and rest: "\<forall>u \<in> set users.
      UserName u \<noteq> None \<and>
      getUserEmailTag env u = Some (Ret (email_tag (tags u), None)) \<and>
      (email_tag (tags u) \<noteq> [] \<longrightarrow>
         listAllAccessKeys env u = Some (keys u, None) \<and> (\<forall>k \<in> set (keys u). populated_key k))"
    by simp_all
  show ?case
  proof (cases "email_tag (tags user) = []")
    case True
    then have "spec_notices (Now env) user (tags user) (keys user) = []"
      by (simp add: spec_notices_def)
    moreover from Cons.IH [OF rest, of acc] obtain log where
      "getDefaultedUsers_users env users acc =
         Some (Ret (acc @ concat (map (\<lambda>u. spec_notices (Now env) u (tags u) (keys u)) users),
                    None), log)"
      by blast
    ultimately show ?thesis using tag True by simp
  next
    case False
    with Cons.prems have lk: "listAllAccessKeys env user = Some (keys user, None)"
      and pk: "\<forall>k \<in> set (keys user). populated_key k"
      by simp_all
    from getDefaultedUsers_keys_total [OF name pk, of "Now env" "email_tag (tags user)" acc]
    obtain log where kl: "getDefaultedUsers_keys (Now env) user (email_tag (tags user))
          (keys user) acc =
        (Ret (acc @ map (notice_for user (email_tag (tags user)) (Now env))
                      (filter (classified_old (Now env)) (keys user))), log)"
      by blast
    have sp: "map (notice_for user (email_tag (tags user)) (Now env))
                      (filter (classified_old (Now env)) (keys user)) =
              spec_notices (Now env) user (tags user) (keys user)"
      using pk False by (rule notices_spec)
    from Cons.IH [OF rest,
        of "acc @ spec_notices (Now env) user (tags user) (keys user)"]
    obtain log2 where "getDefaultedUsers_users env users
          (acc @ spec_notices (Now env) user (tags user) (keys user)) =
        Some (Ret ((acc @ spec_notices (Now env) user (tags user) (keys user)) @
                   concat (map (\<lambda>u. spec_notices (Now env) u (tags u) (keys u)) users),
                   None), log2)"
      by blast
    with tag False lk kl sp show ?thesis by simp
  qed
qed


lemma populated_pages_users:
  assumes "populated env" and "pages_from (ListUsers env) users_Marker m ups"
    and "u \<in> set (concat (map Users ups))"
  shows "UserName u \<noteq> None"
proof -
  from assms(3) obtain p where p: "p \<in> set ups" and u: "u \<in> set (Users p)"
    by auto
  from pages_from_items [OF assms(2) p] obtain m' where "ListUsers env m' = Inr p"
    by blast
  with populated_users [OF assms(1)] u show ?thesis by blast
qed

lemma populated_pages_tags:
  assumes "populated env" and "pages_from (ListUserTags env n) tags_Marker m tps"
  shows "\<forall>t \<in> set (concat (map Tags tps)). Key t \<noteq> None \<and> Value t \<noteq> None"
proof
  fix t
  assume "t \<in> set (concat (map Tags tps))"
  then obtain p where p: "p \<in> set tps" and t: "t \<in> set (Tags p)"
    by auto
  from pages_from_items [OF assms(2) p] obtain m' where "ListUserTags env n m' = Inr p"
    by blast
  with populated_tags [OF assms(1), of n] t show "Key t \<noteq> None \<and> Value t \<noteq> None"
    by blast
qed

lemma populated_pages_keys:
  assumes "populated env" and "pages_from (ListAccessKeys env n) keys_Marker m kps"
  shows "\<forall>k \<in> set (concat (map Keys kps)). populated_key k"
proof
  fix k
  assume "k \<in> set (concat (map Keys kps))"
  then obtain p where p: "p \<in> set kps" and k: "k \<in> set (Keys p)"
    by auto
  from pages_from_items [OF assms(2) p] obtain m' where "ListAccessKeys env n m' = Inr p"
    by blast
  with populated_keys [OF assms(1), of n] k show "populated_key k"
    by blast
qed

lemma getDefaultedUsers_total:
  assumes pop: "populated env"
    and ups: "pages_from (ListUsers env) users_Marker None ups"
    and each: "\<forall>u \<in> set (concat (map Users ups)).
      pages_from (ListUserTags env (UserName u)) tags_Marker None (tps u) \<and>
      (email_tag (concat (map Tags (tps u))) \<noteq> [] \<longrightarrow>
         pages_from (ListAccessKeys env (UserName u)) keys_Marker None (kps u))"
  shows "\<exists>printed. getDefaultedUsers env =
      Some (Ret (concat (map (\<lambda>u. spec_notices (Now env) u (concat (map Tags (tps u)))
                                   (concat (map Keys (kps u))))
                        (concat (map Users ups))), None), printed)"
proof -
  let ?users = "concat (map Users ups)"
  from listAllUsers_loop_pages [OF ups, of "[]"]
  have l: "listAllUsers env = Some (?users, None)"
    by (simp add: listAllUsers_def)
  have "\<forall>u \<in> set ?users.
      UserName u \<noteq> None \<and>
      getUserEmailTag env u = Some (Ret (email_tag (concat (map Tags (tps u))), None)) \<and>
      (email_tag (concat (map Tags (tps u))) \<noteq> [] \<longrightarrow>
         listAllAccessKeys env u = Some (concat (map Keys (kps u)), None) \<and>
         (\<forall>k \<in> set (concat (map Keys (kps u))). populated_key k))"
  proof (intro ballI conjI impI)
    fix u
    assume u: "u \<in> set ?users"
    from pop ups u show "UserName u \<noteq> None"
      by (rule populated_pages_users)
    from each u have t: "pages_from (ListUserTags env (UserName u)) tags_Marker None (tps u)"
      by blast
    from t populated_pages_tags [OF pop t]
    show "getUserEmailTag env u = Some (Ret (email_tag (concat (map Tags (tps u))), None))"
      by (rule getUserEmailTag_pages_email_tag)
    assume "email_tag (concat (map Tags (tps u))) \<noteq> []"
    with each u
    have kp: "pages_from (ListAccessKeys env (UserName u)) keys_Marker None (kps u)"
      by blast
    from listAllAccessKeys_loop_pages [OF kp, of "[]"]
    show "listAllAccessKeys env u = Some (concat (map Keys (kps u)), None)"
      by (simp add: listAllAccessKeys_def)
    fix k
    assume "k \<in> set (concat (map Keys (kps u)))"
    with populated_pages_keys [OF pop kp] show "populated_key k"
      by blast
  qed
  from getDefaultedUsers_users_total [where tags = "\<lambda>u. concat (map Tags (tps u))"
      and keys = "\<lambda>u. concat (map Keys (kps u))", OF this, of "[]"]
  show ?thesis using l by (simp add: getDefaultedUsers_def)
qed

lemma getUserEmailTag_loop_fails_returns:
  "fails_after (ListUserTags env n) tags_Marker m ps e \<Longrightarrow>
   \<exists>r. getUserEmailTag_loop env n m = Some r"
proof (induction ps arbitrary: m)
  case Nil
  then show ?case by (subst getUserEmailTag_loop.simps) simp
next
  case (Cons p ps)
  then obtain m' where c: "ListUserTags env n m = Inr p" and mk: "tags_Marker p = Some m'"
    and rest: "fails_after (ListUserTags env n) tags_Marker (Some m') ps e"
    by (auto split: option.splits)
  from Cons.IH [OF rest] obtain r where r: "getUserEmailTag_loop env n (Some m') = Some r"
    by blast
  show ?case
    by (subst getUserEmailTag_loop.simps)
      (simp add: c mk r split: outcome.splits option.splits)
qed

lemma listing_ends_users:
  assumes "listing_ends (ListUsers env) users_Marker"
  obtains (pages) ups where "pages_from (ListUsers env) users_Marker None ups"
      and "listAllUsers env = Some (concat (map Users ups), None)"
  | (fails) err where "listAllUsers env = Some ([], Some err)"
proof -
  from assms consider ups where "pages_from (ListUsers env) users_Marker None ups"
    | ups e where "fails_after (ListUsers env) users_Marker None ups e"
    by (auto simp: listing_ends_def)
  then show ?thesis
  proof cases
    case 1
    from listAllUsers_loop_pages [OF this, of "[]"] 1 show ?thesis
      by (intro pages [of ups]) (simp_all add: listAllUsers_def)
  next
    case 2
    from listAllUsers_loop_fails [OF this, of "[]"] show ?thesis
      by (intro fails) (simp add: listAllUsers_def)
  qed
qed

lemma listing_ends_tags:
  assumes "listing_ends (ListUserTags env (UserName user)) tags_Marker"
  shows "\<exists>r. getUserEmailTag env user = Some r"
proof -
  from assms consider tps where "pages_from (ListUserTags env (UserName user)) tags_Marker None tps"
    | tps e where "fails_after (ListUserTags env (UserName user)) tags_Marker None tps e"
    by (auto simp: listing_ends_def)
  then show ?thesis
  proof cases
    case 1
    from getUserEmailTag_loop_pages [OF this] show ?thesis
      by (simp add: getUserEmailTag_def)
  next
    case 2
    from getUserEmailTag_loop_fails_returns [OF this] show ?thesis
      by (simp add: getUserEmailTag_def)
  qed
qed

lemma listing_ends_keys:
  assumes "listing_ends (ListAccessKeys env (UserName user)) keys_Marker"
  shows "\<exists>r. listAllAccessKeys env user = Some r"
proof -
  from assms consider kps where
      "pages_from (ListAccessKeys env (UserName user)) keys_Marker None kps"
    | kps e where "fails_after (ListAccessKeys env (UserName user)) keys_Marker None kps e"
    by (auto simp: listing_ends_def)
  then show ?thesis
  proof cases
    case 1
    from listAllAccessKeys_loop_pages [OF this, of "[]"] show ?thesis
      by (simp add: listAllAccessKeys_def)
  next
    case 2
    from listAllAccessKeys_loop_fails [OF this, of "[]"] show ?thesis
      by (simp add: listAllAccessKeys_def)
  qed
qed

lemma getDefaultedUsers_users_returns:
  "\<forall>u \<in> set users. (\<exists>r. getUserEmailTag env u = Some r) \<and>
                       (\<exists>r. listAllAccessKeys env u = Some r) \<Longrightarrow>
   \<exists>r printed. getDefaultedUsers_users env users acc = Some (r, printed)"
proof (induction users arbitrary: acc)
  case Nil
  then show ?case by simp
next
  case (Cons user users)
  from Cons.prems obtain t k where t: "getUserEmailTag env user = Some t"
    and k: "listAllAccessKeys env user = Some k"
    and rest: "\<forall>u \<in> set users. (\<exists>r. getUserEmailTag env u = Some r) \<and>
                       (\<exists>r. listAllAccessKeys env u = Some r)"
    by auto
  note IH = Cons.IH [OF rest]
  show ?case
  proof (cases t)
    case Panic
    with t show ?thesis by simp
  next
    case (Ret p)
    obtain email e where p: "p = (email, e)" by (cases p)
    show ?thesis
    proof (cases e)
      case (Some err)
      with t Ret p show ?thesis by simp
    next
      case None
      note t = t [unfolded Ret p None]
      show ?thesis
      proof (cases "email = []")
        case True
        with t IH [of acc] show ?thesis by simp
      next
        case False
        obtain keys e' where q: "k = (keys, e')" by (cases k)
        show ?thesis
        proof (cases e')
          case (Some err)
          with t False k q show ?thesis by simp
        next
          case None
          note k = k [unfolded q None]
          obtain kr klog where
            kl: "getDefaultedUsers_keys (Now env) user email keys acc = (kr, klog)"
            by (cases "getDefaultedUsers_keys (Now env) user email keys acc")
          show ?thesis
          proof (cases kr)
            case Panic
            with t False k kl show ?thesis by simp
          next
            case (Ret found)
            from IH [of found] obtain r printed where
              "getDefaultedUsers_users env users found = Some (r, printed)"
              by blast
            with t False k kl Ret show ?thesis by simp
          qed
        qed
      qed
    qed
  qed
qed

lemma getDefaultedUsers_returns:
  assumes "populated env" and "listings_end env"
  shows "\<exists>found err printed. getDefaultedUsers env = Some (Ret (found, err), printed)"
proof -
  from assms(2) have "listing_ends (ListUsers env) users_Marker"
    by (simp add: listings_end_def)
  then have "\<exists>r printed. getDefaultedUsers env = Some (r, printed)"
  proof (cases rule: listing_ends_users)
    case (pages ups)
    have "\<forall>u \<in> set (concat (map Users ups)).
            (\<exists>r. getUserEmailTag env u = Some r) \<and> (\<exists>r. listAllAccessKeys env u = Some r)"
    proof
      fix u
      assume "u \<in> set (concat (map Users ups))"
      with assms(2) pages(1)
      have "listing_ends (ListUserTags env (UserName u)) tags_Marker"
        and "listing_ends (ListAccessKeys env (UserName u)) keys_Marker"
        unfolding listings_end_def by blast+
      then show "(\<exists>r. getUserEmailTag env u = Some r) \<and>
                 (\<exists>r. listAllAccessKeys env u = Some r)"
        using listing_ends_tags listing_ends_keys by blast
    qed
    from getDefaultedUsers_users_returns [OF this, of "[]"] pages(2) show ?thesis
      by (simp add: getDefaultedUsers_def)
  next
    case (fails err)
    then show ?thesis by (simp add: getDefaultedUsers_def)
  qed
  then obtain r printed where g: "getDefaultedUsers env = Some (r, printed)"
    by blast
  from assms(1) g have "r \<noteq> Panic"
    by (rule getDefaultedUsers_no_panic)
  then obtain found err where "r = Ret (found, err)"
    by (cases r) auto
  with g show ?thesis by simp
qed

lemma listAllUsers_loop_endless:
  assumes "listAllUsers_loop env m acc = Some r"
  shows "(\<forall>m. \<exists>res next. ListUsers env m = Inr res \<and> users_Marker res = Some next) \<longrightarrow> False"
proof (induction env m acc r rule: listAllUsers_loop.raw_induct)
  case (1 loop env marker users r)
  show ?case
  proof
    assume a: "\<forall>m. \<exists>res next. ListUsers env m = Inr res \<and> users_Marker res = Some next"
    then obtain res n where c: "ListUsers env marker = Inr res" and mk: "users_Marker res = Some n"
      by blast
    with 1(2) have "loop env (Some n) (users @ Users res) = Some r"
      by simp
    then have "(\<forall>m. \<exists>res next. ListUsers env m = Inr res \<and> users_Marker res = Some next) \<longrightarrow> False"
      by (rule 1(1))
    with a show False by blast
  qed
next
  case 2
  show ?case by (rule assms)
qed

lemma listAllUsers_endless_env: "listAllUsers endless_env = None"
proof (cases "listAllUsers endless_env")
  case None
  then show ?thesis .
next
  case (Some r)
  then have "listAllUsers_loop endless_env None [] = Some r"
    by (simp add: listAllUsers_def)
  from listAllUsers_loop_endless [OF this] show ?thesis
    by (simp add: endless_env_def)
qed


lemma listing_ends_pages:
  "pages_from call marker_of None ps \<Longrightarrow> listing_ends call marker_of"
  by (auto simp: listing_ends_def)

lemma listing_ends_fails:
  "fails_after call marker_of None ps err \<Longrightarrow> listing_ends call marker_of"
  by (auto simp: listing_ends_def)

lemma listings_endI:
  assumes "listing_ends (ListUsers env) users_Marker"
    and "\<And>n. listing_ends (ListUserTags env n) tags_Marker"
    and "\<And>n. listing_ends (ListAccessKeys env n) keys_Marker"
  shows "listings_end env"
  using assms by (simp add: listings_end_def)

lemma populated_alice_env: "populated (alice_env flag age)"
  by (simp add: populated_def populated_key_def alice_env_def alice_key_def)

lemma populated_failing_envs:
  "populated users_failing_env" "populated tags_failing_env" "populated keys_failing_env"
  by (simp_all add: populated_def populated_key_def alice_env_def alice_key_def
      users_failing_env_def tags_failing_env_def keys_failing_env_def split: if_splits)

lemma listings_end_alice_env: "listings_end (alice_env flag age)"
proof (rule listings_endI)
  show "listing_ends (ListUsers (alice_env flag age)) users_Marker"
    by (rule listing_ends_pages
        [where ps = "[\<lparr>Users = [\<lparr>UserName = Some ''alice''\<rparr>], users_Marker = None\<rparr>]"])
      (simp add: alice_env_def)
  show "listing_ends (ListUserTags (alice_env flag age) n) tags_Marker" for n
    by (rule listing_ends_pages
        [where ps = "[\<lparr>Tags = [\<lparr>Key = Some ''email'', Value = Some ''a@x.com''\<rparr>],
                      tags_Marker = None\<rparr>]"])
      (simp add: alice_env_def)
  show "listing_ends (ListAccessKeys (alice_env flag age) n) keys_Marker" for n
    by (rule listing_ends_pages [where ps = "[\<lparr>Keys = [alice_key], keys_Marker = None\<rparr>]"])
      (simp add: alice_env_def)
qed

lemma listings_end_users_failing_env: "listings_end users_failing_env"
proof (rule listings_endI)
  show "listing_ends (ListUsers users_failing_env) users_Marker"
    by (rule listing_ends_fails
        [where ps = "[\<lparr>Users = [\<lparr>UserName = Some ''alice''\<rparr>], users_Marker = Some ''u2''\<rparr>]"
          and err = "Error ''denied''"])
      (simp add: users_failing_env_def)
  show "listing_ends (ListUserTags users_failing_env n) tags_Marker" for n
    by (rule listing_ends_pages
        [where ps = "[\<lparr>Tags = [\<lparr>Key = Some ''email'', Value = Some ''a@x.com''\<rparr>],
                      tags_Marker = None\<rparr>]"])
      (simp add: users_failing_env_def alice_env_def)
  show "listing_ends (ListAccessKeys users_failing_env n) keys_Marker" for n
    by (rule listing_ends_pages [where ps = "[\<lparr>Keys = [alice_key], keys_Marker = None\<rparr>]"])
      (simp add: users_failing_env_def alice_env_def)
qed

lemma listings_end_tags_failing_env: "listings_end tags_failing_env"
proof (rule listings_endI)
  show "listing_ends (ListUsers tags_failing_env) users_Marker"
    by (rule listing_ends_pages
        [where ps = "[\<lparr>Users = [\<lparr>UserName = Some ''alice''\<rparr>], users_Marker = None\<rparr>]"])
      (simp add: tags_failing_env_def alice_env_def)
  show "listing_ends (ListUserTags tags_failing_env n) tags_Marker" for n
    by (rule listing_ends_fails
        [where ps = "[\<lparr>Tags = [\<lparr>Key = Some ''team'', Value = Some ''core''\<rparr>],
                      tags_Marker = Some ''t2''\<rparr>]"
          and err = "Error ''denied''"])
      (simp add: tags_failing_env_def)
  show "listing_ends (ListAccessKeys tags_failing_env n) keys_Marker" for n
    by (rule listing_ends_pages [where ps = "[\<lparr>Keys = [alice_key], keys_Marker = None\<rparr>]"])
      (simp add: tags_failing_env_def alice_env_def)
qed

lemma listings_end_keys_failing_env: "listings_end keys_failing_env"
proof (rule listings_endI)
  show "listing_ends (ListUsers keys_failing_env) users_Marker"
    by (rule listing_ends_pages
        [where ps = "[\<lparr>Users = [\<lparr>UserName = Some ''alice''\<rparr>], users_Marker = None\<rparr>]"])
      (simp add: keys_failing_env_def alice_env_def)
  show "listing_ends (ListUserTags keys_failing_env n) tags_Marker" for n
    by (rule listing_ends_pages
        [where ps = "[\<lparr>Tags = [\<lparr>Key = Some ''email'', Value = Some ''a@x.com''\<rparr>],
                      tags_Marker = None\<rparr>]"])
      (simp add: keys_failing_env_def alice_env_def)
  show "listing_ends (ListAccessKeys keys_failing_env n) keys_Marker" for n
    by (rule listing_ends_fails
        [where ps = "[\<lparr>Keys = [alice_key], keys_Marker = Some ''k2''\<rparr>]"
          and err = "Error ''denied''"])
      (simp add: keys_failing_env_def)
qed

section \<open>The handler\<close>

lemma isKeyOld_Some:
  "CreateDate key = Some c \<Longrightarrow> \<exists>old days. isKeyOld now key olderThan = Ret (old, days)"
  by (auto simp: isKeyOld_def)

lemma sendEmail_events:
  "sendEmail (Email user) (EMAIL_FROM_ADDRESS env) env (OlderThan user) = (sent, log) \<Longrightarrow>
   notifications log = [mail_for env user] \<and> deletions log = []"
  by (auto simp: sendEmail_def mail_for_def Let_def split: option.splits)

lemma deleteKeys_events:
  "deleteKeys keyId userName env = (deleted, log) \<Longrightarrow>
   notifications log = [] \<and>
   deletions log = [\<lparr>del_AccessKeyId = keyId, del_UserName = userName\<rparr>]"
  by (auto simp: deleteKeys_def Let_def split: sum.splits)

lemma HandleLabdaEvent_range_calls:
  "\<forall>u \<in> set us. populated_key (du_Key u) \<Longrightarrow>
   \<exists>tr. HandleLabdaEvent_range env us = (Ret (), tr) \<and>
        notifications tr = map (mail_for env) us \<and>
        deletions tr = map deletion_for (filter (deletes env) us)"
proof (induction us)
  case Nil
  then show ?case by simp
next
  case (Cons u us)
  from Cons.prems obtain c keyId where c: "CreateDate (du_Key u) = Some c"
    and k: "AccessKeyId (du_Key u) = Some keyId"
    by (auto simp: populated_key_def)
  from isKeyOld_Some [OF c] obtain isOld days where
    o: "isKeyOld (Now env) (du_Key u) [100] = Ret (isOld, days)"
    by blast
  obtain sent log where
    se: "sendEmail (Email u) (EMAIL_FROM_ADDRESS env) env (OlderThan u) = (sent, log)"
    by (cases "sendEmail (Email u) (EMAIL_FROM_ADDRESS env) env (OlderThan u)")
  obtain deleted dlog where dk: "deleteKeys keyId (du_UserName u) env = (deleted, dlog)"
    by (cases "deleteKeys keyId (du_UserName u) env")
  from Cons obtain tr where tr: "HandleLabdaEvent_range env us = (Ret (), tr)"
    and n: "notifications tr = map (mail_for env) us"
    and d: "deletions tr = map deletion_for (filter (deletes env) us)"
    by auto
  have g: "deletes env u = (isOld \<and> DRY_RUN env = ''--dry-run'')"
    by (simp add: deletes_def o)
  have step: "HandleLabdaEvent_range env (u # us) =
                (Ret (), log @ (if deletes env u then dlog else []) @ tr)"
    by (simp add: se o k dk tr g)
  from sendEmail_events [OF se] have ln: "notifications log = [mail_for env u]"
    and ld: "deletions log = []"
    by simp_all
  from deleteKeys_events [OF dk] have dn: "notifications dlog = []"
    and dd: "deletions dlog = [deletion_for u]"
    by (simp_all add: deletion_for_def k)
  show ?case
    unfolding step
    by (simp add: notifications_append deletions_append ln ld dn dd n d)
qed

lemma mail_for_SendEmail_update: "mail_for (env\<lparr>SendEmail := send\<rparr>) = mail_for env"
  by (rule ext) (simp add: mail_for_def)

lemma deletes_SendEmail_update: "deletes (env\<lparr>SendEmail := send\<rparr>) = deletes env"
  by (rule ext) (simp add: deletes_def)

lemma deletes_iff:
  "CreateDate (du_Key user) = Some created \<Longrightarrow>
   deletes env user = (50 * day < Now env - created \<and> DRY_RUN env = ''--dry-run'')"
  by (auto simp: deletes_def isKeyOld_100 day_def)

text \<open>
  C8. Whatever the notification service answers (\<open>send\<close> is any function, in particular
  one that fails on every call), the loop of the handler over notices with populated keys
  does not stop: it returns after one notification per notice, in the order of the
  notices, and it issues the deletion call for exactly the notices that pass the gate of
  the handler (\<open>isKeyOld\<close> with the override 100, and the flag). Neither the notifications
  nor the deletions depend on \<open>send\<close>.
\<close>

theorem send_failure_not_fatal:
  assumes "\<forall>u \<in> set us. populated_key (du_Key u)"
  shows "\<exists>tr. HandleLabdaEvent_range (env\<lparr>SendEmail := send\<rparr>) us = (Ret (), tr) \<and>
              notifications tr = map (mail_for env) us \<and>
              deletions tr = map deletion_for (filter (deletes env) us)"
  using HandleLabdaEvent_range_calls [OF assms, of "env\<lparr>SendEmail := send\<rparr>"]
  by (simp add: mail_for_SendEmail_update deletes_SendEmail_update)

theorem send_failure_not_fatal_witness:
  "populated_key (du_Key alice_notice) \<and>
   (\<exists>tr. HandleLabdaEvent_range
           ((alice_env ''--dry-run'' 120)\<lparr>SendEmail := (\<lambda>i. Some (Error ''throttled''))\<rparr>)
           [alice_notice, alice_notice] = (Ret (), tr) \<and>
         notifications tr =
           [mail_for (alice_env ''--dry-run'' 120) alice_notice,
            mail_for (alice_env ''--dry-run'' 120) alice_notice] \<and>
         deletions tr =
           [\<lparr>del_AccessKeyId = ''AKIA1'', del_UserName = ''alice''\<rparr>,
            \<lparr>del_AccessKeyId = ''AKIA1'', del_UserName = ''alice''\<rparr>])"
  using send_failure_not_fatal [where us = "[alice_notice, alice_notice]"
      and env = "alice_env ''--dry-run'' 120" and send = "\<lambda>i. Some (Error ''throttled'')"]
  by (simp add: populated_key_def alice_notice_def alice_key_def deletes_def deletion_for_def
      isKeyOld_100 alice_env_def day_def)

lemma getDefaultedUsers_populated:
  assumes "getDefaultedUsers env = Some (Ret (dus, e), log)"
  shows "\<forall>u \<in> set dus. populated_key (du_Key u)"
proof (cases "listAllUsers env")
  case None
  with assms show ?thesis by (simp add: getDefaultedUsers_def)
next
  case (Some p)
  obtain users e' where p: "p = (users, e')" by (cases p)
  show ?thesis
  proof (cases e')
    case (Some err)
    with \<open>listAllUsers env = Some p\<close> p assms show ?thesis
      by (auto simp: getDefaultedUsers_def)
  next
    case None
    with \<open>listAllUsers env = Some p\<close> p assms
    have "getDefaultedUsers_users env users [] = Some (Ret (dus, e), log)"
      by (simp add: getDefaultedUsers_def)
    then show ?thesis by (rule getDefaultedUsers_users_populated) simp
  qed
qed

lemma getDefaultedUsers_events:
  assumes "getDefaultedUsers env = Some (r, log)"
  shows "deletions log = [] \<and> notifications log = []"
proof (cases "listAllUsers env")
  case None
  with assms show ?thesis by (simp add: getDefaultedUsers_def)
next
  case (Some p)
  obtain users e' where p: "p = (users, e')" by (cases p)
  show ?thesis
  proof (cases e')
    case (Some err)
    with \<open>listAllUsers env = Some p\<close> p assms show ?thesis
      by (auto simp: getDefaultedUsers_def)
  next
    case None
    with \<open>listAllUsers env = Some p\<close> p assms
    have "getDefaultedUsers_users env users [] = Some (r, log)"
      by (simp add: getDefaultedUsers_def)
    then show ?thesis by (rule getDefaultedUsers_users_events)
  qed
qed

lemma getDefaultedUsers_error_nil:
  assumes "getDefaultedUsers env = Some (Ret (dus, Some err), log)"
  shows "dus = []"
proof (cases "listAllUsers env")
  case None
  with assms show ?thesis by (simp add: getDefaultedUsers_def)
next
  case (Some p)
  obtain users e' where p: "p = (users, e')" by (cases p)
  show ?thesis
  proof (cases e')
    case (Some err')
    with \<open>listAllUsers env = Some p\<close> p assms show ?thesis
      by (auto simp: getDefaultedUsers_def)
  next
    case None
    with \<open>listAllUsers env = Some p\<close> p assms
    have "getDefaultedUsers_users env users [] = Some (Ret (dus, Some err), log)"
      by (simp add: getDefaultedUsers_def)
    then show ?thesis by (rule getDefaultedUsers_users_error)
  qed
qed

lemma HandleLabdaEvent_enumerated:
  assumes "LoadDefaultConfig env = None"
    and "getDefaultedUsers env = Some (Ret (dus, None), log)"
  shows "\<exists>tr. HandleLabdaEvent env = Some (Ret None, log @ tr) \<and>
              HandleLabdaEvent_range env dus = (Ret (), tr)"
proof -
  from assms(2) have "\<forall>u \<in> set dus. populated_key (du_Key u)"
    by (rule getDefaultedUsers_populated)
  from HandleLabdaEvent_range_calls [OF this, of env]
  obtain tr where "HandleLabdaEvent_range env dus = (Ret (), tr)"
    by blast
  with assms show ?thesis
    by (simp add: HandleLabdaEvent_def)
qed

lemma HandleLabdaEvent_enumeration_error:
  assumes "LoadDefaultConfig env = None"
    and "getDefaultedUsers env = Some (Ret (dus, Some err), log)"
  shows "HandleLabdaEvent env =
           Some (Ret None,
                 log @ [Println (''Error getting users and their keys: '' @ Error_msg err)])"
  using assms by (simp add: HandleLabdaEvent_def)


lemma HandleLabdaEvent_after_enumeration:
  assumes "getDefaultedUsers env = Some (Ret (dus, e), log)"
  shows "\<exists>tr. HandleLabdaEvent env = Some (Ret None, tr)"
proof (cases "LoadDefaultConfig env")
  case (Some cerr)
  then show ?thesis by (simp add: HandleLabdaEvent_def)
next
  case None
  show ?thesis
  proof (cases e)
    case (Some err)
    with None assms show ?thesis
      by (simp add: HandleLabdaEvent_enumeration_error)
  next
    case no_error: None
    with None assms HandleLabdaEvent_enumerated [of env dus log] show ?thesis
      by blast
  qed
qed

text \<open>
  C4 (as amended). When every listing of the run ends (after finitely many pages, with a
  page without marker or with a failing call) and every listed record has its pointer
  fields populated, the handler returns, and returns the nil error: also when a users, tags
  or access keys listing call fails. When loading the configuration fails, the handler
  returns nil. Every return of the handler, and every run in which the enumeration
  returns, gives nil.
\<close>

theorem HandleLabdaEvent_returns_nil:
  "(populated env \<and> listings_end env \<longrightarrow>
      (\<exists>tr. HandleLabdaEvent env = Some (Ret None, tr))) \<and>
   (LoadDefaultConfig env = Some cerr \<longrightarrow> (\<exists>tr. HandleLabdaEvent env = Some (Ret None, tr))) \<and>
   (HandleLabdaEvent env = Some (Ret r, tr) \<longrightarrow> r = None) \<and>
   (getDefaultedUsers env = Some (Ret (dus, e), log) \<longrightarrow>
      (\<exists>tr. HandleLabdaEvent env = Some (Ret None, tr)))"
proof (intro conjI impI)
  assume "populated env \<and> listings_end env"
  then obtain found err printed where
    "getDefaultedUsers env = Some (Ret (found, err), printed)"
    using getDefaultedUsers_returns by blast
  then show "\<exists>tr. HandleLabdaEvent env = Some (Ret None, tr)"
    by (rule HandleLabdaEvent_after_enumeration)
next
  assume "HandleLabdaEvent env = Some (Ret r, tr)"
  then show "r = None"
    by (auto simp: HandleLabdaEvent_def split: option.splits outcome.splits prod.splits)
next
  assume "LoadDefaultConfig env = Some cerr"
  then show "\<exists>tr. HandleLabdaEvent env = Some (Ret None, tr)"
    by (simp add: HandleLabdaEvent_def)
next
  assume "getDefaultedUsers env = Some (Ret (dus, e), log)"
  then show "\<exists>tr. HandleLabdaEvent env = Some (Ret None, tr)"
    by (rule HandleLabdaEvent_after_enumeration)
qed

theorem HandleLabdaEvent_returns_nil_witness:
  "populated (alice_env [] 60) \<and> listings_end (alice_env [] 60) \<and>
   (\<exists>tr. HandleLabdaEvent (alice_env [] 60) = Some (Ret None, tr)) \<and>
   populated users_failing_env \<and> listings_end users_failing_env \<and>
   (\<exists>tr. HandleLabdaEvent users_failing_env = Some (Ret None, tr)) \<and>
   populated tags_failing_env \<and> listings_end tags_failing_env \<and>
   (\<exists>tr. HandleLabdaEvent tags_failing_env = Some (Ret None, tr)) \<and>
   populated keys_failing_env \<and> listings_end keys_failing_env \<and>
   (\<exists>tr. HandleLabdaEvent keys_failing_env = Some (Ret None, tr)) \<and>
   LoadDefaultConfig config_failing_env = Some (Error ''no credentials'') \<and>
   (\<exists>tr. HandleLabdaEvent config_failing_env = Some (Ret None, tr)) \<and>
   getDefaultedUsers tags_failing_env =
     Some (Ret ([], Some (Error ''error listing tags: denied'')), [])"
  using HandleLabdaEvent_returns_nil [where env = "alice_env [] 60"]
    HandleLabdaEvent_returns_nil [where env = users_failing_env]
    HandleLabdaEvent_returns_nil [where env = keys_failing_env]
    HandleLabdaEvent_returns_nil [where env = tags_failing_env and dus = "[]"
      and e = "Some (Error ''error listing tags: denied'')" and log = "[]"]
    HandleLabdaEvent_returns_nil [where env = config_failing_env
      and cerr = "Error ''no credentials''"]
    populated_alice_env [of "[]" 60] populated_failing_envs
    listings_end_alice_env [of "[]" 60]
    listings_end_users_failing_env listings_end_tags_failing_env listings_end_keys_failing_env
  by (simp add: config_failing_env_def tags_failing_env_def alice_env_def
      getDefaultedUsers_def listAllUsers_def listAllUsers_loop.simps
      getUserEmailTag_def getUserEmailTag_loop.simps Errorf_def)

text \<open>
  Without these conditions the handler need not return nil: an access key without creation
  date makes the run panic, and a listing of the principals with a marker on every page
  makes it run forever.
\<close>

theorem HandleLabdaEvent_no_nil_return:
  "HandleLabdaEvent nil_date_env = Some (Panic, []) \<and> HandleLabdaEvent endless_env = None"
proof
  show "HandleLabdaEvent nil_date_env = Some (Panic, [])"
    by (simp add: HandleLabdaEvent_def getDefaultedUsers_def listAllUsers_def
        listAllUsers_loop.simps getUserEmailTag_def getUserEmailTag_loop.simps
        listAllAccessKeys_def listAllAccessKeys_loop.simps nil_date_env_def alice_env_def
        isKeyOld_def)
  have "LoadDefaultConfig endless_env = None"
    by (simp add: endless_env_def alice_env_def)
  then show "HandleLabdaEvent endless_env = None"
    by (simp add: HandleLabdaEvent_def getDefaultedUsers_def listAllUsers_endless_env)
qed


text \<open>
  C9. When the service lists the principals, the tags of each and the access keys of each
  principal with a notification address, all populated and without error, the enumeration
  returns without error, and its notice list is the concatenation, in the order of the
  principals, of the notices of each: one record per credential classified as old, in the
  order of the credentials, carrying the name of the principal, the value of its email tag,
  the credential and the threshold label. Every enumeration that returns without error
  returns the notices of the listed principals in that order.
\<close>

theorem notices_in_discovery_order:
  "(populated env \<and> pages_from (ListUsers env) users_Marker None ups \<and>
    (\<forall>u \<in> set (concat (map Users ups)).
       pages_from (ListUserTags env (UserName u)) tags_Marker None (tps u) \<and>
       (email_tag (concat (map Tags (tps u))) \<noteq> [] \<longrightarrow>
          pages_from (ListAccessKeys env (UserName u)) keys_Marker None (kps u))) \<longrightarrow>
    (\<exists>printed. getDefaultedUsers env =
       Some (Ret (concat (map (\<lambda>u. spec_notices (Now env) u (concat (map Tags (tps u)))
                                    (concat (map Keys (kps u))))
                         (concat (map Users ups))), None), printed))) \<and>
   (getDefaultedUsers env = Some (Ret (dus, None), log) \<longrightarrow>
      (\<exists>users. listAllUsers env = Some (users, None) \<and>
                dus = concat (map (notices_of env) users)))"
proof (intro conjI impI)
  assume a: "populated env \<and> pages_from (ListUsers env) users_Marker None ups \<and>
    (\<forall>u \<in> set (concat (map Users ups)).
       pages_from (ListUserTags env (UserName u)) tags_Marker None (tps u) \<and>
       (email_tag (concat (map Tags (tps u))) \<noteq> [] \<longrightarrow>
          pages_from (ListAccessKeys env (UserName u)) keys_Marker None (kps u)))"
  then have "populated env" and "pages_from (ListUsers env) users_Marker None ups"
    and "\<forall>u \<in> set (concat (map Users ups)).
       pages_from (ListUserTags env (UserName u)) tags_Marker None (tps u) \<and>
       (email_tag (concat (map Tags (tps u))) \<noteq> [] \<longrightarrow>
          pages_from (ListAccessKeys env (UserName u)) keys_Marker None (kps u))"
    by blast+
  then show "\<exists>printed. getDefaultedUsers env =
       Some (Ret (concat (map (\<lambda>u. spec_notices (Now env) u (concat (map Tags (tps u)))
                                    (concat (map Keys (kps u))))
                         (concat (map Users ups))), None), printed)"
    by (rule getDefaultedUsers_total)
next
  assume g: "getDefaultedUsers env = Some (Ret (dus, None), log)"
  show "\<exists>users. listAllUsers env = Some (users, None) \<and>
                 dus = concat (map (notices_of env) users)"
  proof (cases "listAllUsers env")
    case None
    with g show ?thesis by (simp add: getDefaultedUsers_def)
  next
    case (Some p)
    obtain users e where p: "p = (users, e)" by (cases p)
    show ?thesis
    proof (cases e)
      case (Some err)
      with \<open>listAllUsers env = Some p\<close> p g show ?thesis
        by (simp add: getDefaultedUsers_def)
    next
      case None
      with \<open>listAllUsers env = Some p\<close> p g
      have "getDefaultedUsers_users env users [] = Some (Ret (dus, None), log)"
        by (simp add: getDefaultedUsers_def)
      then have "dus = [] @ concat (map (notices_of env) users)"
        by (rule getDefaultedUsers_users_Ret)
      with \<open>listAllUsers env = Some p\<close> p None show ?thesis by simp
    qed
  qed
qed

theorem notices_in_discovery_order_witness:
  "populated paged_env \<and>
   pages_from (ListUsers paged_env) users_Marker None
     [\<lparr>Users = [\<lparr>UserName = Some ''bob''\<rparr>], users_Marker = Some ''u2''\<rparr>,
      \<lparr>Users = [\<lparr>UserName = Some ''alice''\<rparr>], users_Marker = None\<rparr>] \<and>
   getDefaultedUsers paged_env =
     Some (Ret ([\<lparr>du_UserName = ''alice'', Email = ''a@x.com'',
                   du_Key = \<lparr>AccessKeyId = Some ''AKIA1'', CreateDate = Some 0\<rparr>,
                   OlderThan = ''57''\<rparr>,
                 \<lparr>du_UserName = ''alice'', Email = ''a@x.com'',
                   du_Key = \<lparr>AccessKeyId = Some ''AKIA3'', CreateDate = Some (65 * day)\<rparr>,
                   OlderThan = ''50''\<rparr>], None),
           [Println ''Access key AKIA1 for user alice is older than 60 days.'',
            Println ''Access key AKIA3 for user alice is older than 60 days.'']) \<and>
   (\<exists>users. listAllUsers paged_env = Some (users, None) \<and>
      [\<lparr>du_UserName = ''alice'', Email = ''a@x.com'',
         du_Key = \<lparr>AccessKeyId = Some ''AKIA1'', CreateDate = Some 0\<rparr>,
         OlderThan = ''57''\<rparr>,
       \<lparr>du_UserName = ''alice'', Email = ''a@x.com'',
         du_Key = \<lparr>AccessKeyId = Some ''AKIA3'', CreateDate = Some (65 * day)\<rparr>,
         OlderThan = ''50''\<rparr>] = concat (map (notices_of paged_env) users))"
proof -
  have total: "\<exists>printed. getDefaultedUsers paged_env =
     Some (Ret ([\<lparr>du_UserName = ''alice'', Email = ''a@x.com'',
                   du_Key = \<lparr>AccessKeyId = Some ''AKIA1'', CreateDate = Some 0\<rparr>,
                   OlderThan = ''57''\<rparr>,
                 \<lparr>du_UserName = ''alice'', Email = ''a@x.com'',
                   du_Key = \<lparr>AccessKeyId = Some ''AKIA3'', CreateDate = Some (65 * day)\<rparr>,
                   OlderThan = ''50''\<rparr>], None), printed)"
    and pop: "populated paged_env"
    and ups: "pages_from (ListUsers paged_env) users_Marker None
     [\<lparr>Users = [\<lparr>UserName = Some ''bob''\<rparr>], users_Marker = Some ''u2''\<rparr>,
      \<lparr>Users = [\<lparr>UserName = Some ''alice''\<rparr>], users_Marker = None\<rparr>]"
    using notices_in_discovery_order [where env = paged_env
      and ups = "[\<lparr>Users = [\<lparr>UserName = Some ''bob''\<rparr>], users_Marker = Some ''u2''\<rparr>,
                  \<lparr>Users = [\<lparr>UserName = Some ''alice''\<rparr>], users_Marker = None\<rparr>]"
      and tps = "\<lambda>u. if UserName u = Some ''alice''
         then [\<lparr>Tags = [\<lparr>Key = Some ''email'', Value = Some ''a@x.com''\<rparr>], tags_Marker = None\<rparr>]
         else [\<lparr>Tags = [\<lparr>Key = Some ''team'', Value = Some ''core''\<rparr>], tags_Marker = Some ''t2''\<rparr>,
               \<lparr>Tags = [\<lparr>Key = Some ''Email'', Value = Some ''b@x.com''\<rparr>], tags_Marker = None\<rparr>]"
      and kps = "\<lambda>u. [\<lparr>Keys = [\<lparr>AccessKeyId = Some ''AKIA1'', CreateDate = Some 0\<rparr>,
                          \<lparr>AccessKeyId = Some ''AKIA2'', CreateDate = Some (110 * day)\<rparr>],
                  keys_Marker = Some ''k2''\<rparr>,
                 \<lparr>Keys = [\<lparr>AccessKeyId = Some ''AKIA3'', CreateDate = Some (65 * day)\<rparr>],
                  keys_Marker = None\<rparr>]"]
    by (simp_all add: populated_def populated_key_def paged_env_def email_tag_def
        spec_notices_def spec_classify_def age_of_def day_def split: if_splits)
  have printed: "getDefaultedUsers paged_env =
     Some (Ret ([\<lparr>du_UserName = ''alice'', Email = ''a@x.com'',
                   du_Key = \<lparr>AccessKeyId = Some ''AKIA1'', CreateDate = Some 0\<rparr>,
                   OlderThan = ''57''\<rparr>,
                 \<lparr>du_UserName = ''alice'', Email = ''a@x.com'',
                   du_Key = \<lparr>AccessKeyId = Some ''AKIA3'', CreateDate = Some (65 * day)\<rparr>,
                   OlderThan = ''50''\<rparr>], None),
           [Println ''Access key AKIA1 for user alice is older than 60 days.'',
            Println ''Access key AKIA3 for user alice is older than 60 days.''])"
    by (simp add: paged_env_def getDefaultedUsers_def listAllUsers_def listAllUsers_loop.simps
        getUserEmailTag_def getUserEmailTag_loop.simps listAllAccessKeys_def
        listAllAccessKeys_loop.simps isKeyOld_Nil day_def)
  from notices_in_discovery_order [where env = paged_env
      and dus = "[\<lparr>du_UserName = ''alice'', Email = ''a@x.com'',
                   du_Key = \<lparr>AccessKeyId = Some ''AKIA1'', CreateDate = Some 0\<rparr>,
                   OlderThan = ''57''\<rparr>,
                 \<lparr>du_UserName = ''alice'', Email = ''a@x.com'',
                   du_Key = \<lparr>AccessKeyId = Some ''AKIA3'', CreateDate = Some (65 * day)\<rparr>,
                   OlderThan = ''50''\<rparr>]"
      and log = "[Println ''Access key AKIA1 for user alice is older than 60 days.'',
            Println ''Access key AKIA3 for user alice is older than 60 days.'']"] printed
  have "\<exists>users. listAllUsers paged_env = Some (users, None) \<and>
      [\<lparr>du_UserName = ''alice'', Email = ''a@x.com'',
         du_Key = \<lparr>AccessKeyId = Some ''AKIA1'', CreateDate = Some 0\<rparr>,
         OlderThan = ''57''\<rparr>,
       \<lparr>du_UserName = ''alice'', Email = ''a@x.com'',
         du_Key = \<lparr>AccessKeyId = Some ''AKIA3'', CreateDate = Some (65 * day)\<rparr>,
         OlderThan = ''50''\<rparr>] = concat (map (notices_of paged_env) users)"
    by blast
  with total pop ups printed show ?thesis by blast
qed

text \<open>
  C10. When every record returned by the listing calls has its pointer fields populated,
  the handler does not panic. The fields are dereferenced without a check: a nil creation
  date makes \<open>isKeyOld\<close> panic, a nil tag key or a nil value of the email tag makes the scan
  of the tags panic, a nil key id or user name makes the enumeration panic at a
  credential classified as old, and a nil key id makes the loop of the handler panic at a
  deletion.
\<close>

theorem populated_no_panic:
  "(populated env \<longrightarrow> HandleLabdaEvent env \<noteq> Some (Panic, tr)) \<and>
   (CreateDate key = None \<longrightarrow> isKeyOld now key olderThan = Panic) \<and>
   (Key tag = None \<longrightarrow> getUserEmailTag_tags (tag # tags) = Panic) \<and>
   (Key tag = Some ''email'' \<and> Value tag = None \<longrightarrow> getUserEmailTag_tags (tag # tags) = Panic) \<and>
   (classified_old now key \<and> (AccessKeyId key = None \<or> UserName user = None) \<longrightarrow>
      fst (getDefaultedUsers_keys now user email (key # keys) acc) = Panic) \<and>
   (deletes env notice \<and> AccessKeyId (du_Key notice) = None \<longrightarrow>
      fst (HandleLabdaEvent_range env (notice # notices)) = Panic)"
proof (intro conjI impI)
  assume pop: "populated env"
  show "HandleLabdaEvent env \<noteq> Some (Panic, tr)"
  proof
    assume h: "HandleLabdaEvent env = Some (Panic, tr)"
    then have cfg: "LoadDefaultConfig env = None"
      by (auto simp: HandleLabdaEvent_def split: option.splits)
    from h cfg obtain r log where g: "getDefaultedUsers env = Some (r, log)"
      by (cases "getDefaultedUsers env") (auto simp: HandleLabdaEvent_def)
    from pop g have "r \<noteq> Panic"
      by (rule getDefaultedUsers_no_panic)
    then obtain dus e where r: "r = Ret (dus, e)"
      by (cases r) auto
    from HandleLabdaEvent_after_enumeration [OF g [unfolded r]] h show False
      by simp
  qed
next
  assume "CreateDate key = None"
  then show "isKeyOld now key olderThan = Panic"
    by (simp add: isKeyOld_def)
next
  assume "Key tag = None"
  then show "getUserEmailTag_tags (tag # tags) = Panic"
    by simp
next
  assume "Key tag = Some ''email'' \<and> Value tag = None"
  then show "getUserEmailTag_tags (tag # tags) = Panic"
    by simp
next
  assume a: "classified_old now key \<and> (AccessKeyId key = None \<or> UserName user = None)"
  then obtain days where "isKeyOld now key [] = Ret (True, days)"
    by (auto simp: classified_old_def split: outcome.splits)
  with a show "fst (getDefaultedUsers_keys now user email (key # keys) acc) = Panic"
    by (auto split: option.splits)
next
  assume a: "deletes env notice \<and> AccessKeyId (du_Key notice) = None"
  then obtain days where "isKeyOld (Now env) (du_Key notice) [100] = Ret (True, days)"
    and "DRY_RUN env = ''--dry-run''"
    by (auto simp: deletes_def split: outcome.splits)
  with a show "fst (HandleLabdaEvent_range env (notice # notices)) = Panic"
    by (simp split: prod.splits)
qed

theorem populated_no_panic_witness:
  "populated paged_env \<and> HandleLabdaEvent paged_env \<noteq> Some (Panic, []) \<and>
   isKeyOld 0 \<lparr>AccessKeyId = Some ''AKIA1'', CreateDate = None\<rparr> [100] = Panic \<and>
   getUserEmailTag_tags [\<lparr>Key = None, Value = Some ''a@x.com''\<rparr>] = Panic \<and>
   getUserEmailTag_tags [\<lparr>Key = Some ''email'', Value = None\<rparr>] = Panic \<and>
   classified_old (60 * day) \<lparr>AccessKeyId = None, CreateDate = Some 0\<rparr> \<and>
   fst (getDefaultedUsers_keys (60 * day) \<lparr>UserName = Some ''alice''\<rparr> ''a@x.com''
          [\<lparr>AccessKeyId = None, CreateDate = Some 0\<rparr>] []) = Panic"
  using populated_no_panic [where env = paged_env and tr = "[]"
      and key = "\<lparr>AccessKeyId = Some ''AKIA1'', CreateDate = None\<rparr>" and now = 0
      and olderThan = "[100]" and tag = "\<lparr>Key = None, Value = Some ''a@x.com''\<rparr>"
      and tags = "[]"]
    populated_no_panic [where tag = "\<lparr>Key = Some ''email'', Value = None\<rparr>" and tags = "[]"
      and key = "\<lparr>AccessKeyId = None, CreateDate = Some 0\<rparr>" and now = "60 * day"
      and user = "\<lparr>UserName = Some ''alice''\<rparr>" and email = "''a@x.com''" and keys = "[]"
      and acc = "[]"]
  by (simp add: populated_def populated_key_def paged_env_def classified_old_def isKeyOld_Nil
      day_def split: if_splits)


lemma getDefaultedUsers_users_tag_error:
  assumes "getDefaultedUsers_users env us1 acc = Some (Ret (acc1, None), log1)"
    and "getUserEmailTag env user = Some (Ret (email, Some err))"
  shows "getDefaultedUsers_users env (us1 @ user # us2) acc = Some (Ret ([], Some err), log1)"
  using assms(2) by (simp add: getDefaultedUsers_users_append [OF assms(1)])

lemma getDefaultedUsers_users_keys_error:
  assumes "getDefaultedUsers_users env us1 acc = Some (Ret (acc1, None), log1)"
    and "getUserEmailTag env user = Some (Ret (email, None))" and "email \<noteq> []"
    and "listAllAccessKeys env user = Some (keys, Some err)"
  shows "getDefaultedUsers_users env (us1 @ user # us2) acc = Some (Ret ([], Some err), log1)"
  using assms(2-4) by (simp add: getDefaultedUsers_users_append [OF assms(1)])

text \<open>
  C7. When the enumeration returns an error, the notice list it returns is empty, and the
  handler (the configuration loaded) returns nil without a notification or a deletion call.
  A failing listing call leads there: a \<open>ListUsers\<close> call that fails after any number of
  pages; for a principal that the enumeration reaches, a \<open>ListUserTags\<close> call that fails
  after pages without the email tag, or a \<open>ListAccessKeys\<close> call that fails after any
  number of pages. The lines printed before the failure stay printed.
\<close>

theorem enumeration_failure:
  "(getDefaultedUsers env = Some (Ret (dus, Some err), log) \<longrightarrow>
      dus = [] \<and>
      (LoadDefaultConfig env = None \<longrightarrow>
         (\<exists>tr. HandleLabdaEvent env = Some (Ret None, tr) \<and>
               notifications tr = [] \<and> deletions tr = []))) \<and>
   (fails_after (ListUsers env) users_Marker None ups e \<longrightarrow>
      getDefaultedUsers env =
        Some (Ret ([], Some (Errorf ''error listing users: '' e)), [])) \<and>
   (listAllUsers env = Some (before @ user # after, None) \<and>
    getDefaultedUsers_users env before [] = Some (Ret (found, None), printed) \<and>
    fails_after (ListUserTags env (UserName user)) tags_Marker None tps e \<and>
    getUserEmailTag_tags (concat (map Tags tps)) = Ret None \<longrightarrow>
      getDefaultedUsers env =
        Some (Ret ([], Some (Errorf ''error listing tags: '' e)), printed)) \<and>
   (listAllUsers env = Some (before @ user # after, None) \<and>
    getDefaultedUsers_users env before [] = Some (Ret (found, None), printed) \<and>
    getUserEmailTag env user = Some (Ret (email, None)) \<and> email \<noteq> [] \<and>
    fails_after (ListAccessKeys env (UserName user)) keys_Marker None kps e \<longrightarrow>
      getDefaultedUsers env =
        Some (Ret ([], Some (Errorf ''error listing access keys: '' e)), printed))"
proof (intro conjI impI)
  assume g: "getDefaultedUsers env = Some (Ret (dus, Some err), log)"
  then show "dus = []"
    by (rule getDefaultedUsers_error_nil)
  assume "LoadDefaultConfig env = None"
  then have "HandleLabdaEvent env =
      Some (Ret None, log @ [Println (''Error getting users and their keys: '' @ Error_msg err)])"
    using g by (rule HandleLabdaEvent_enumeration_error)
  moreover from g have "deletions log = [] \<and> notifications log = []"
    by (rule getDefaultedUsers_events)
  ultimately show "\<exists>tr. HandleLabdaEvent env = Some (Ret None, tr) \<and>
               notifications tr = [] \<and> deletions tr = []"
    by (simp add: notifications_append deletions_append)
next
  assume "fails_after (ListUsers env) users_Marker None ups e"
  then have "listAllUsers_loop env None [] = Some ([], Some (Errorf ''error listing users: '' e))"
    by (rule listAllUsers_loop_fails)
  then show "getDefaultedUsers env =
        Some (Ret ([], Some (Errorf ''error listing users: '' e)), [])"
    by (simp add: getDefaultedUsers_def listAllUsers_def)
next
  assume a: "listAllUsers env = Some (before @ user # after, None) \<and>
    getDefaultedUsers_users env before [] = Some (Ret (found, None), printed) \<and>
    fails_after (ListUserTags env (UserName user)) tags_Marker None tps e \<and>
    getUserEmailTag_tags (concat (map Tags tps)) = Ret None"
  then have "getUserEmailTag_loop env (UserName user) None =
      Some (Ret ([], Some (Errorf ''error listing tags: '' e)))"
    by (intro getUserEmailTag_loop_fails [where ps = tps]) simp_all
  then have "getUserEmailTag env user = Some (Ret ([], Some (Errorf ''error listing tags: '' e)))"
    by (simp add: getUserEmailTag_def)
  with a have "getDefaultedUsers_users env (before @ user # after) [] =
      Some (Ret ([], Some (Errorf ''error listing tags: '' e)), printed)"
    by (intro getDefaultedUsers_users_tag_error) simp_all
  with a show "getDefaultedUsers env =
        Some (Ret ([], Some (Errorf ''error listing tags: '' e)), printed)"
    by (simp add: getDefaultedUsers_def)
next
  assume a: "listAllUsers env = Some (before @ user # after, None) \<and>
    getDefaultedUsers_users env before [] = Some (Ret (found, None), printed) \<and>
    getUserEmailTag env user = Some (Ret (email, None)) \<and> email \<noteq> [] \<and>
    fails_after (ListAccessKeys env (UserName user)) keys_Marker None kps e"
  then have "listAllAccessKeys_loop env (UserName user) None [] =
      Some ([], Some (Errorf ''error listing access keys: '' e))"
    by (intro listAllAccessKeys_loop_fails [where ps = kps]) simp_all
  then have "listAllAccessKeys env user =
      Some ([], Some (Errorf ''error listing access keys: '' e))"
    by (simp add: listAllAccessKeys_def)
  with a have "getDefaultedUsers_users env (before @ user # after) [] =
      Some (Ret ([], Some (Errorf ''error listing access keys: '' e)), printed)"
    by (intro getDefaultedUsers_users_keys_error [where email = email and keys = "[]"]) simp_all
  with a show "getDefaultedUsers env =
        Some (Ret ([], Some (Errorf ''error listing access keys: '' e)), printed)"
    by (simp add: getDefaultedUsers_def)
qed

theorem enumeration_failure_witness:
  "fails_after (ListUsers users_failing_env) users_Marker None
     [\<lparr>Users = [\<lparr>UserName = Some ''alice''\<rparr>], users_Marker = Some ''u2''\<rparr>] (Error ''denied'') \<and>
   getDefaultedUsers users_failing_env =
     Some (Ret ([], Some (Error ''error listing users: denied'')), []) \<and>
   (\<exists>tr. HandleLabdaEvent users_failing_env = Some (Ret None, tr) \<and>
         notifications tr = [] \<and> deletions tr = []) \<and>
   fails_after (ListUserTags tags_failing_env (Some ''alice'')) tags_Marker None
     [\<lparr>Tags = [\<lparr>Key = Some ''team'', Value = Some ''core''\<rparr>], tags_Marker = Some ''t2''\<rparr>]
     (Error ''denied'') \<and>
   getDefaultedUsers tags_failing_env =
     Some (Ret ([], Some (Error ''error listing tags: denied'')), []) \<and>
   (\<exists>tr. HandleLabdaEvent tags_failing_env = Some (Ret None, tr) \<and>
         notifications tr = [] \<and> deletions tr = []) \<and>
   fails_after (ListAccessKeys keys_failing_env (Some ''alice'')) keys_Marker None
     [\<lparr>Keys = [alice_key], keys_Marker = Some ''k2''\<rparr>] (Error ''denied'') \<and>
   getDefaultedUsers keys_failing_env =
     Some (Ret ([], Some (Error ''error listing access keys: denied'')), []) \<and>
   (\<exists>tr. HandleLabdaEvent keys_failing_env = Some (Ret None, tr) \<and>
         notifications tr = [] \<and> deletions tr = [])"
  using enumeration_failure [where env = users_failing_env and dus = "[]"
      and err = "Error ''error listing users: denied''" and log = "[]"
      and ups = "[\<lparr>Users = [\<lparr>UserName = Some ''alice''\<rparr>], users_Marker = Some ''u2''\<rparr>]"
      and e = "Error ''denied''"]
    enumeration_failure [where env = tags_failing_env and dus = "[]"
      and err = "Error ''error listing tags: denied''" and log = "[]"
      and before = "[]" and user = "\<lparr>UserName = Some ''alice''\<rparr>" and after = "[]"
      and found = "[]" and printed = "[]"
      and tps = "[\<lparr>Tags = [\<lparr>Key = Some ''team'', Value = Some ''core''\<rparr>],
                  tags_Marker = Some ''t2''\<rparr>]"
      and e = "Error ''denied''"]
    enumeration_failure [where env = keys_failing_env and dus = "[]"
      and err = "Error ''error listing access keys: denied''" and log = "[]"
      and before = "[]" and user = "\<lparr>UserName = Some ''alice''\<rparr>" and after = "[]"
      and found = "[]" and printed = "[]" and email = "''a@x.com''"
      and kps = "[\<lparr>Keys = [alice_key], keys_Marker = Some ''k2''\<rparr>]"
      and e = "Error ''denied''"]
  by (simp add: users_failing_env_def tags_failing_env_def keys_failing_env_def alice_env_def
      listAllUsers_def listAllUsers_loop.simps getUserEmailTag_def getUserEmailTag_loop.simps
      Errorf_def)


end
